theory Spec2Isabelle
  imports Complex_Main "HOL-Library.AList"
begin

section \<open>JavaScript values, objects and the heap\<close>

text \<open>
  The store service of \<^verbatim>\<open>amp-story-store-service.js\<close> passes untyped payloads
  (\<^verbatim>\<open>@param {*} data\<close>) to its reducer, compares values with \<^verbatim>\<open>===\<close> and
  \<^verbatim>\<open>!==\<close>, coerces with \<^verbatim>\<open>!!\<close> and tells a returned state apart from a new one
  by reference. The model therefore has JavaScript values with object references, and a heap
  of objects.

  A number is a double. Only \<^verbatim>\<open>===\<close> and \<^verbatim>\<open>!!\<close> are applied to numbers here, and
  neither separates \<^verbatim>\<open>+0\<close> from \<^verbatim>\<open>-0\<close>, so a number is \<open>NaN\<close>, an infinity, or a
  finite rational (every finite double is one).
\<close>

type_synonym ref = nat

datatype jsnum = NaN | PosInfinity | NegInfinity | Finite rat

datatype jsval =
    JUndefined
  | JNull
  | JBoolean bool
  | JNumber jsnum
  | JString string
  | JSymbol nat
  | JBigInt int
  | JObject ref

text \<open>
  An object is the partial map of its own data properties; properties inherited from
  \<^verbatim>\<open>Object.prototype\<close>, accessors and proxies are not modelled (the service reads only
  the names of \<^verbatim>\<open>StateProperty\<close> and \<^verbatim>\<open>id\<close>, \<^verbatim>\<open>index\<close>, none of which a built-in
  prototype defines). The heap is the list of the objects allocated so far; a reference is
  an index into it, and allocation appends.
\<close>

type_synonym jsobj = "string \<rightharpoonup> jsval"

type_synonym heap = "jsobj list"

text \<open>
  The exceptions that occur: a TypeError from reading a property of \<^verbatim>\<open>undefined\<close> or
  \<^verbatim>\<open>null\<close>, and a RangeError when nested calls exhaust the call stack.
\<close>

datatype error = TypeError | RangeError

definition deref :: "heap \<Rightarrow> ref \<Rightarrow> jsobj" where
  "deref h r = (if r < length h then h ! r else Map.empty)"

definition alloc :: "heap \<Rightarrow> jsobj \<Rightarrow> heap \<times> ref" where
  "alloc h obj = (h @ [obj], length h)"

text \<open>\<^verbatim>\<open>a === b\<close>: equal values of the same type, except that \<^verbatim>\<open>NaN\<close> equals nothing.\<close>

definition strict_equals :: "jsval \<Rightarrow> jsval \<Rightarrow> bool" where
  "strict_equals a b = (a = b \<and> a \<noteq> JNumber NaN)"

text \<open>\<^verbatim>\<open>!!v\<close>, that is ToBoolean.\<close>

fun to_boolean :: "jsval \<Rightarrow> bool" where
  "to_boolean JUndefined = False"
| "to_boolean JNull = False"
| "to_boolean (JBoolean b) = b"
| "to_boolean (JNumber NaN) = False"
| "to_boolean (JNumber PosInfinity) = True"
| "to_boolean (JNumber NegInfinity) = True"
| "to_boolean (JNumber (Finite q)) = (q \<noteq> 0)"
| "to_boolean (JString s) = (s \<noteq> [])"
| "to_boolean (JSymbol _) = True"
| "to_boolean (JBigInt i) = (i \<noteq> 0)"
| "to_boolean (JObject _) = True"

text \<open>\<^verbatim>\<open>obj[key]\<close> on an object: the own property, or \<^verbatim>\<open>undefined\<close>.\<close>

definition get_prop :: "jsobj \<Rightarrow> string \<Rightarrow> jsval" where
  "get_prop obj key = (case obj key of None \<Rightarrow> JUndefined | Some v \<Rightarrow> v)"

text \<open>
  \<^verbatim>\<open>v.name\<close> on any value: a TypeError on \<^verbatim>\<open>undefined\<close> and \<^verbatim>\<open>null\<close>, the property
  of an object, and \<^verbatim>\<open>undefined\<close> on the other primitives (for the names read here).
  Objects are plain: reading a data property runs no code. A payload with an accessor or a
  Proxy, whose reads can throw, is outside these values.
\<close>

fun get_member :: "heap \<Rightarrow> jsval \<Rightarrow> string \<Rightarrow> error + jsval" where
  "get_member h JUndefined name = Inl TypeError"
| "get_member h JNull name = Inl TypeError"
| "get_member h (JObject r) name = Inr (get_prop (deref h r) name)"
| "get_member h v name = Inr JUndefined"

text \<open>
  \<^verbatim>\<open>Object.assign(target, ...sources)\<close>: each source's properties are written over the
  target's, later sources winning.
\<close>

definition object_assign :: "jsobj \<Rightarrow> jsobj list \<Rightarrow> jsobj" where
  "object_assign target sources = foldl (++) target sources"

text \<open>
  Modelled from the spec: \<^verbatim>\<open>hasOwn\<close> of \<^verbatim>\<open>src/utils/object.js\<close>, which is not among
  the sources; a key is known when it is a key of the snapshot.
\<close>

definition hasOwn :: "jsobj \<Rightarrow> string \<Rightarrow> bool" where
  "hasOwn obj key = (obj key \<noteq> None)"


section \<open>Enumerations of the module\<close>

abbreviation TAG :: string where "TAG \<equiv> ''amp-story''"

datatype UIType = MOBILE | DESKTOP | SCROLL

fun UIType_value :: "UIType \<Rightarrow> jsval" where
  "UIType_value MOBILE = JNumber (Finite 0)"
| "UIType_value DESKTOP = JNumber (Finite 1)"
| "UIType_value SCROLL = JNumber (Finite 2)"

abbreviation CAN_INSERT_AUTOMATIC_AD :: string where
  "CAN_INSERT_AUTOMATIC_AD \<equiv> ''caninsertautomaticad''"
abbreviation CAN_SHOW_BOOKEND :: string where
  "CAN_SHOW_BOOKEND \<equiv> ''canshowbookend''"
abbreviation CAN_SHOW_NAVIGATION_OVERLAY_HINT :: string where
  "CAN_SHOW_NAVIGATION_OVERLAY_HINT \<equiv> ''canshownavigationoverlayhint''"
abbreviation CAN_SHOW_PREVIOUS_PAGE_HELP :: string where
  "CAN_SHOW_PREVIOUS_PAGE_HELP \<equiv> ''canshowpreviouspagehelp''"
abbreviation CAN_SHOW_SHARING_UIS :: string where
  "CAN_SHOW_SHARING_UIS \<equiv> ''canshowsharinguis''"
abbreviation CAN_SHOW_SYSTEM_LAYER_BUTTONS :: string where
  "CAN_SHOW_SYSTEM_LAYER_BUTTONS \<equiv> ''canshowsystemlayerbuttons''"
abbreviation ACCESS_STATE :: string where
  "ACCESS_STATE \<equiv> ''accessstate''"
abbreviation AD_STATE :: string where
  "AD_STATE \<equiv> ''adstate''"
abbreviation BOOKEND_STATE :: string where
  "BOOKEND_STATE \<equiv> ''bookendstate''"
abbreviation DESKTOP_STATE :: string where
  "DESKTOP_STATE \<equiv> ''desktopstate''"
abbreviation HAS_SIDEBAR_STATE :: string where
  "HAS_SIDEBAR_STATE \<equiv> ''hassidebarstate''"
abbreviation INFO_DIALOG_STATE :: string where
  "INFO_DIALOG_STATE \<equiv> ''infodialogstate''"
abbreviation LANDSCAPE_STATE :: string where
  "LANDSCAPE_STATE \<equiv> ''landscapestate''"
abbreviation MUTED_STATE :: string where
  "MUTED_STATE \<equiv> ''mutedstate''"
abbreviation PAGE_HAS_AUDIO_STATE :: string where
  "PAGE_HAS_AUDIO_STATE \<equiv> ''pageaudiostate''"
abbreviation PAUSED_STATE :: string where
  "PAUSED_STATE \<equiv> ''pausedstate''"
abbreviation RTL_STATE :: string where
  "RTL_STATE \<equiv> ''rtlstate''"
abbreviation SHARE_MENU_STATE :: string where
  "SHARE_MENU_STATE \<equiv> ''sharemenustate''"
abbreviation SIDEBAR_STATE :: string where
  "SIDEBAR_STATE \<equiv> ''sidebarstate''"
abbreviation SUPPORTED_BROWSER_STATE :: string where
  "SUPPORTED_BROWSER_STATE \<equiv> ''supportedbrowserstate''"
abbreviation STORY_HAS_AUDIO_STATE :: string where
  "STORY_HAS_AUDIO_STATE \<equiv> ''storyaudiostate''"
abbreviation UI_STATE :: string where
  "UI_STATE \<equiv> ''uistate''"
abbreviation CONSENT_ID :: string where
  "CONSENT_ID \<equiv> ''consentid''"
abbreviation CURRENT_PAGE_ID :: string where
  "CURRENT_PAGE_ID \<equiv> ''currentpageid''"
abbreviation CURRENT_PAGE_INDEX :: string where
  "CURRENT_PAGE_INDEX \<equiv> ''currentpageindex''"

datatype Action =
    CHANGE_PAGE
  | SET_CONSENT_ID
  | TOGGLE_ACCESS
  | TOGGLE_AD
  | TOGGLE_BOOKEND
  | TOGGLE_INFO_DIALOG
  | TOGGLE_LANDSCAPE
  | TOGGLE_MUTED
  | TOGGLE_PAGE_HAS_AUDIO
  | TOGGLE_PAUSED
  | TOGGLE_RTL
  | TOGGLE_SHARE_MENU
  | TOGGLE_SIDEBAR
  | TOGGLE_HAS_SIDEBAR
  | TOGGLE_SUPPORTED_BROWSER
  | TOGGLE_STORY_HAS_AUDIO
  | TOGGLE_UI

text \<open>The string each member of the \<^verbatim>\<open>Action\<close> enum stands for.\<close>

fun Action_value :: "Action \<Rightarrow> string" where
  "Action_value CHANGE_PAGE = ''setcurrentpageid''"
| "Action_value SET_CONSENT_ID = ''setconsentid''"
| "Action_value TOGGLE_ACCESS = ''toggleaccess''"
| "Action_value TOGGLE_AD = ''togglead''"
| "Action_value TOGGLE_BOOKEND = ''togglebookend''"
| "Action_value TOGGLE_INFO_DIALOG = ''toggleinfodialog''"
| "Action_value TOGGLE_LANDSCAPE = ''togglelandscape''"
| "Action_value TOGGLE_MUTED = ''togglemuted''"
| "Action_value TOGGLE_PAGE_HAS_AUDIO = ''togglepagehasaudio''"
| "Action_value TOGGLE_PAUSED = ''togglepaused''"
| "Action_value TOGGLE_RTL = ''togglertl''"
| "Action_value TOGGLE_SHARE_MENU = ''togglesharemenu''"
| "Action_value TOGGLE_SIDEBAR = ''togglesidebar''"
| "Action_value TOGGLE_HAS_SIDEBAR = ''togglehassidebar''"
| "Action_value TOGGLE_SUPPORTED_BROWSER = ''togglesupportedbrowser''"
| "Action_value TOGGLE_STORY_HAS_AUDIO = ''togglestoryhasaudio''"
| "Action_value TOGGLE_UI = ''toggleui''"

text \<open>
  The \<^verbatim>\<open>case\<close> label that \<^verbatim>\<open>switch (action)\<close> selects, in the order of the labels in
  \<^verbatim>\<open>actions\<close>; \<open>None\<close> is the \<^verbatim>\<open>default\<close> branch.
\<close>

definition switch_action :: "string \<Rightarrow> Action option" where
  "switch_action action =
    (if action = Action_value TOGGLE_ACCESS then Some TOGGLE_ACCESS
     else if action = Action_value TOGGLE_AD then Some TOGGLE_AD
     else if action = Action_value TOGGLE_BOOKEND then Some TOGGLE_BOOKEND
     else if action = Action_value TOGGLE_INFO_DIALOG then Some TOGGLE_INFO_DIALOG
     else if action = Action_value TOGGLE_STORY_HAS_AUDIO then Some TOGGLE_STORY_HAS_AUDIO
     else if action = Action_value TOGGLE_LANDSCAPE then Some TOGGLE_LANDSCAPE
     else if action = Action_value TOGGLE_MUTED then Some TOGGLE_MUTED
     else if action = Action_value TOGGLE_PAGE_HAS_AUDIO then Some TOGGLE_PAGE_HAS_AUDIO
     else if action = Action_value TOGGLE_PAUSED then Some TOGGLE_PAUSED
     else if action = Action_value TOGGLE_RTL then Some TOGGLE_RTL
     else if action = Action_value TOGGLE_SIDEBAR then Some TOGGLE_SIDEBAR
     else if action = Action_value TOGGLE_HAS_SIDEBAR then Some TOGGLE_HAS_SIDEBAR
     else if action = Action_value TOGGLE_SUPPORTED_BROWSER then Some TOGGLE_SUPPORTED_BROWSER
     else if action = Action_value TOGGLE_SHARE_MENU then Some TOGGLE_SHARE_MENU
     else if action = Action_value TOGGLE_UI then Some TOGGLE_UI
     else if action = Action_value SET_CONSENT_ID then Some SET_CONSENT_ID
     else if action = Action_value CHANGE_PAGE then Some CHANGE_PAGE
     else None)"


section \<open>The reducer\<close>

text \<open>
  A developer-facing diagnostic: the tag and the message given to \<^verbatim>\<open>dev().error\<close>.
\<close>

type_synonym diagnostic = "string \<times> string"

text \<open>
  \<^verbatim>\<open>Object.assign({}, state, {...})\<close>: a new object, allocated at a fresh reference. The
  object literal and other temporaries that nothing refers to after the call are not put in
  the heap.
\<close>

definition assign_state :: "heap \<Rightarrow> ref \<Rightarrow> jsobj \<Rightarrow> heap \<times> ref" where
  "assign_state h state props = alloc h (object_assign Map.empty [deref h state, props])"

text \<open>
  \<^verbatim>\<open>actions(state, action, data)\<close>. The result is the heap after the call, the reference
  returned, and the diagnostics logged; \<open>Inl\<close> is a thrown exception.
\<close>

definition actions ::
  "heap \<Rightarrow> ref \<Rightarrow> string \<Rightarrow> jsval \<Rightarrow> error + (heap \<times> ref) \<times> diagnostic list" where
  "actions h state action data =
    (case switch_action action of
       Some TOGGLE_ACCESS \<Rightarrow>
         if strict_equals (get_prop (deref h state) ACCESS_STATE) data
         then Inr ((h, state), [])
         else Inr (assign_state h state
                [ACCESS_STATE \<mapsto> JBoolean (to_boolean data),
                 PAUSED_STATE \<mapsto> JBoolean (to_boolean data)], [])
     | Some TOGGLE_AD \<Rightarrow>
         Inr (assign_state h state [AD_STATE \<mapsto> JBoolean (to_boolean data)], [])
     | Some TOGGLE_BOOKEND \<Rightarrow>
         if \<not> to_boolean (get_prop (deref h state) CAN_SHOW_BOOKEND)
         then Inr ((h, state), [])
         else Inr (assign_state h state [BOOKEND_STATE \<mapsto> JBoolean (to_boolean data)], [])
     | Some TOGGLE_INFO_DIALOG \<Rightarrow>
         Inr (assign_state h state
                [INFO_DIALOG_STATE \<mapsto> JBoolean (to_boolean data),
                 PAUSED_STATE \<mapsto> JBoolean (to_boolean data)], [])
     | Some TOGGLE_STORY_HAS_AUDIO \<Rightarrow>
         Inr (assign_state h state
                [STORY_HAS_AUDIO_STATE \<mapsto> JBoolean (to_boolean data)], [])
     | Some TOGGLE_LANDSCAPE \<Rightarrow>
         Inr (assign_state h state [LANDSCAPE_STATE \<mapsto> JBoolean (to_boolean data)], [])
     | Some TOGGLE_MUTED \<Rightarrow>
         Inr (assign_state h state [MUTED_STATE \<mapsto> JBoolean (to_boolean data)], [])
     | Some TOGGLE_PAGE_HAS_AUDIO \<Rightarrow>
         Inr (assign_state h state
                [PAGE_HAS_AUDIO_STATE \<mapsto> JBoolean (to_boolean data)], [])
     | Some TOGGLE_PAUSED \<Rightarrow>
         Inr (assign_state h state [PAUSED_STATE \<mapsto> JBoolean (to_boolean data)], [])
     | Some TOGGLE_RTL \<Rightarrow>
         Inr (assign_state h state [RTL_STATE \<mapsto> JBoolean (to_boolean data)], [])
     | Some TOGGLE_SIDEBAR \<Rightarrow>
         if strict_equals (get_prop (deref h state) SIDEBAR_STATE) data
         then Inr ((h, state), [])
         else Inr (assign_state h state
                [PAUSED_STATE \<mapsto> JBoolean (to_boolean data),
                 SIDEBAR_STATE \<mapsto> JBoolean (to_boolean data)], [])
     | Some TOGGLE_HAS_SIDEBAR \<Rightarrow>
         Inr (assign_state h state [HAS_SIDEBAR_STATE \<mapsto> JBoolean (to_boolean data)], [])
     | Some TOGGLE_SUPPORTED_BROWSER \<Rightarrow>
         Inr (assign_state h state
                [SUPPORTED_BROWSER_STATE \<mapsto> JBoolean (to_boolean data)], [])
     | Some TOGGLE_SHARE_MENU \<Rightarrow>
         Inr (assign_state h state
                [PAUSED_STATE \<mapsto> JBoolean (to_boolean data),
                 SHARE_MENU_STATE \<mapsto> JBoolean (to_boolean data)], [])
     | Some TOGGLE_UI \<Rightarrow>
         Inr (assign_state h state
                [DESKTOP_STATE \<mapsto> JBoolean (strict_equals data (UIType_value DESKTOP)),
                 UI_STATE \<mapsto> data], [])
     | Some SET_CONSENT_ID \<Rightarrow>
         Inr (assign_state h state [CONSENT_ID \<mapsto> data], [])
     | Some CHANGE_PAGE \<Rightarrow>
         (case get_member h data ''id'' of
            Inl e \<Rightarrow> Inl e
          | Inr page_id \<Rightarrow>
              (case get_member h data ''index'' of
                 Inl e \<Rightarrow> Inl e
               | Inr page_index \<Rightarrow>
                   Inr (assign_state h state
                          [CURRENT_PAGE_ID \<mapsto> page_id,
                           CURRENT_PAGE_INDEX \<mapsto> page_index], [])))
     | None \<Rightarrow>
         Inr ((h, state), [(TAG, ''Unknown action '' @ action @ ''.'')]))"


section \<open>The store service\<close>

text \<open>
  A listener is a callback of the embedding page. It is identified by a handle; calling it
  is recorded as an event with the argument it was given. In \<open>subscribe\<close> and
  \<open>dispatch\<close> of this section a call does nothing else: they are the operations when
  every listener returns at once, without throwing and without calling back into the
  store. The section on listeners that act gives the two operations for listeners that do
  anything.
\<close>

type_synonym listener = nat

datatype event = Call listener jsval

text \<open>
  Modelled from the spec: \<^verbatim>\<open>Observable\<close> of \<^verbatim>\<open>src/observable.js\<close>, which is not among
  the sources: an ordered collection of subscribers, insertion order being invocation order.
\<close>

type_synonym Observable = "listener list"

definition Observable_add :: "Observable \<Rightarrow> listener \<Rightarrow> Observable" where
  "Observable_add handlers handler = handlers @ [handler]"

definition Observable_fire :: "Observable \<Rightarrow> jsval \<Rightarrow> event list" where
  "Observable_fire handlers v = map (\<lambda>handler. Call handler v) handlers"

text \<open>
  The service: its two private fields \<^verbatim>\<open>this.listeners_\<close> and \<^verbatim>\<open>this.state_\<close>
  (here \<open>this_listeners\<close> and \<open>this_state\<close>), together with the heap that the
  state reference points into and the two effects visible outside, the diagnostics logged
  and the listener calls made, both in order. The listeners object is used as a dictionary
  of observables, kept in insertion order, which is the order of \<^verbatim>\<open>Object.keys\<close> for
  keys that are not array indices.
\<close>

record store =
  heap :: heap
  this_listeners :: "(string \<times> Observable) list"
  this_state :: ref
  logged :: "diagnostic list"
  called :: "event list"

definition Object_keys :: "(string \<times> 'a) list \<Rightarrow> string list" where
  "Object_keys obj = map fst obj"

text \<open>
  Modelled from the spec: \<^verbatim>\<open>dev().error\<close> of \<^verbatim>\<open>src/log.js\<close>, which is not among the
  sources: a non-fatal diagnostic report, which returns.
\<close>

definition dev_error :: "store \<Rightarrow> string \<Rightarrow> string \<Rightarrow> store" where
  "dev_error w tag msg = w\<lparr>logged := logged w @ [(tag, msg)]\<rparr>"

definition call_listener :: "store \<Rightarrow> listener \<Rightarrow> jsval \<Rightarrow> store" where
  "call_listener w l v = w\<lparr>called := called w @ [Call l v]\<rparr>"

definition the_state :: "store \<Rightarrow> jsobj" where
  "the_state w = deref (heap w) (this_state w)"

text \<open>\<^verbatim>\<open>get(key)\<close>: the store after the call and the value returned.\<close>

definition get :: "store \<Rightarrow> string \<Rightarrow> error + store \<times> jsval" where
  "get w key =
    (if \<not> hasOwn (the_state w) key
     then Inr (dev_error w TAG (''Unknown state '' @ key @ ''.''), JUndefined)
     else Inr (w, get_prop (the_state w) key))"

text \<open>
  \<^verbatim>\<open>subscribe(key, listener, callToInitialize)\<close>. Reading \<^verbatim>\<open>.add\<close> of a missing
  observable would be a TypeError.
\<close>

definition subscribe :: "store \<Rightarrow> string \<Rightarrow> listener \<Rightarrow> bool \<Rightarrow> error + store" where
  "subscribe w key l callToInitialize =
    (if \<not> hasOwn (the_state w) key
     then Inr (dev_error w TAG (''Can't subscribe to unknown state '' @ key @ ''.''))
     else
       let w1 = (if map_of (this_listeners w) key = None
                 then w\<lparr>this_listeners := AList.update key [] (this_listeners w)\<rparr>
                 else w)
       in (case map_of (this_listeners w1) key of
             None \<Rightarrow> Inl TypeError
           | Some handlers \<Rightarrow>
               let w2 = w1\<lparr>this_listeners :=
                            AList.update key (Observable_add handlers l) (this_listeners w1)\<rparr>
               in if callToInitialize
                  then (case get w2 key of
                          Inl e \<Rightarrow> Inl e
                        | Inr (w3, v) \<Rightarrow> Inr (call_listener w3 l v))
                  else Inr w2))"

text \<open>
  The body of \<^verbatim>\<open>Object.keys(this.listeners_).forEach(key => ...)\<close> in \<^verbatim>\<open>dispatch\<close>,
  run over the keys in order.
\<close>

fun fire_changed :: "jsobj \<Rightarrow> string list \<Rightarrow> store \<Rightarrow> error + store" where
  "fire_changed oldState [] w = Inr w"
| "fire_changed oldState (key # keys) w =
    (if \<not> strict_equals (get_prop oldState key) (get_prop (the_state w) key)
     then (case map_of (this_listeners w) key of
             None \<Rightarrow> Inl TypeError
           | Some handlers \<Rightarrow>
               fire_changed oldState keys
                 (w\<lparr>called := called w
                      @ Observable_fire handlers (get_prop (the_state w) key)\<rparr>))
     else fire_changed oldState keys w)"

text \<open>
  \<^verbatim>\<open>dispatch(action, data)\<close>. An exception of the reducer leaves the service as it was.
\<close>

definition dispatch :: "store \<Rightarrow> string \<Rightarrow> jsval \<Rightarrow> error + store" where
  "dispatch w action data =
    (let oldState = object_assign Map.empty [the_state w]
     in case actions (heap w) (this_state w) action data of
          Inl e \<Rightarrow> Inl e
        | Inr ((h', state'), msgs) \<Rightarrow>
            fire_changed oldState (Object_keys (this_listeners w))
              (w\<lparr>heap := h', this_state := state', logged := logged w @ msgs\<rparr>))"

text \<open>\<^verbatim>\<open>getDefaultState_()\<close>.\<close>

definition getDefaultState :: jsobj where
  "getDefaultState =
    [CAN_INSERT_AUTOMATIC_AD \<mapsto> JBoolean True,
     CAN_SHOW_BOOKEND \<mapsto> JBoolean True,
     CAN_SHOW_NAVIGATION_OVERLAY_HINT \<mapsto> JBoolean True,
     CAN_SHOW_PREVIOUS_PAGE_HELP \<mapsto> JBoolean True,
     CAN_SHOW_SHARING_UIS \<mapsto> JBoolean True,
     CAN_SHOW_SYSTEM_LAYER_BUTTONS \<mapsto> JBoolean True,
     ACCESS_STATE \<mapsto> JBoolean False,
     AD_STATE \<mapsto> JBoolean False,
     BOOKEND_STATE \<mapsto> JBoolean False,
     DESKTOP_STATE \<mapsto> JBoolean False,
     INFO_DIALOG_STATE \<mapsto> JBoolean False,
     LANDSCAPE_STATE \<mapsto> JBoolean False,
     MUTED_STATE \<mapsto> JBoolean True,
     PAGE_HAS_AUDIO_STATE \<mapsto> JBoolean False,
     PAUSED_STATE \<mapsto> JBoolean False,
     RTL_STATE \<mapsto> JBoolean False,
     SHARE_MENU_STATE \<mapsto> JBoolean False,
     SIDEBAR_STATE \<mapsto> JBoolean False,
     SUPPORTED_BROWSER_STATE \<mapsto> JBoolean True,
     STORY_HAS_AUDIO_STATE \<mapsto> JBoolean False,
     HAS_SIDEBAR_STATE \<mapsto> JBoolean False,
     UI_STATE \<mapsto> UIType_value MOBILE,
     CONSENT_ID \<mapsto> JNull,
     CURRENT_PAGE_ID \<mapsto> JString [],
     CURRENT_PAGE_INDEX \<mapsto> JNumber (Finite 0)]"

text \<open>
  Modelled from the spec: \<^verbatim>\<open>EmbedMode\<close> and \<^verbatim>\<open>parseEmbedMode\<close> of
  \<^verbatim>\<open>embed-mode.js\<close>, which is not among the sources: the parser returns one of a closed
  set of embed-mode identifiers (default, NAME_TBD, NO_SHARING). The constructor below takes
  the parsed mode in place of the window.
\<close>

datatype EmbedMode = NOT_EMBEDDED | NAME_TBD | NO_SHARING

text \<open>\<^verbatim>\<open>getEmbedOverrides_()\<close>, on the parsed embed mode.\<close>

fun getEmbedOverrides :: "EmbedMode \<Rightarrow> jsobj" where
  "getEmbedOverrides NAME_TBD =
    [CAN_INSERT_AUTOMATIC_AD \<mapsto> JBoolean False,
     CAN_SHOW_BOOKEND \<mapsto> JBoolean False,
     CAN_SHOW_NAVIGATION_OVERLAY_HINT \<mapsto> JBoolean False,
     CAN_SHOW_PREVIOUS_PAGE_HELP \<mapsto> JBoolean True,
     CAN_SHOW_SYSTEM_LAYER_BUTTONS \<mapsto> JBoolean False,
     MUTED_STATE \<mapsto> JBoolean False]"
| "getEmbedOverrides NO_SHARING = [CAN_SHOW_SHARING_UIS \<mapsto> JBoolean False]"
| "getEmbedOverrides NOT_EMBEDDED = Map.empty"

text \<open>
  \<^verbatim>\<open>new AmpStoryStoreService(win)\<close>, on a heap \<open>h\<close> of objects that already exist.
\<close>

definition constructor :: "heap \<Rightarrow> EmbedMode \<Rightarrow> store" where
  "constructor h embedMode =
    (let (h', r) = alloc h (object_assign Map.empty
                              [getDefaultState, getEmbedOverrides embedMode])
     in \<lparr>heap = h', this_listeners = [], this_state = r, logged = [], called = []\<rparr>)"


section \<open>Listeners that act\<close>

text \<open>
  The source calls a subscriber's function in the middle of \<^verbatim>\<open>subscribe\<close> and of
  \<^verbatim>\<open>dispatch\<close>, with no guard against re-entrancy: before it returns, the function may
  call \<^verbatim>\<open>get\<close>, \<^verbatim>\<open>subscribe\<close> and \<^verbatim>\<open>dispatch\<close> again, and it may throw. What the
  listeners do is a parameter of the operations below: for a listener, the argument it is
  called with and the store at the call (the call recorded), the store when the listener is
  done, and whether it returned or threw.
\<close>

datatype outcome = Returned store | Threw error store

type_synonym reaction = "listener \<Rightarrow> jsval \<Rightarrow> store \<Rightarrow> outcome"

text \<open>
  Modelled from the spec: \<^verbatim>\<open>Observable.fire\<close> of \<^verbatim>\<open>src/observable.js\<close>, which is
  not among the sources: the handlers it has when it is fired are called in subscription
  order, each with the event; an exception of a handler ends the loop.
\<close>

fun Observable_fire_with :: "reaction \<Rightarrow> Observable \<Rightarrow> jsval \<Rightarrow> store \<Rightarrow> outcome" where
  "Observable_fire_with react [] v w = Returned w"
| "Observable_fire_with react (handler # handlers) v w =
    (case react handler v (call_listener w handler v) of
       Threw e w' \<Rightarrow> Threw e w'
     | Returned w' \<Rightarrow> Observable_fire_with react handlers v w')"

text \<open>
  \<^verbatim>\<open>subscribe(key, listener, callToInitialize)\<close>, the listener being called when
  \<^verbatim>\<open>callToInitialize\<close> is set.
\<close>

definition subscribe_with ::
  "reaction \<Rightarrow> store \<Rightarrow> string \<Rightarrow> listener \<Rightarrow> bool \<Rightarrow> outcome" where
  "subscribe_with react w key l callToInitialize =
    (if \<not> hasOwn (the_state w) key
     then Returned (dev_error w TAG (''Can't subscribe to unknown state '' @ key @ ''.''))
     else
       let w1 = (if map_of (this_listeners w) key = None
                 then w\<lparr>this_listeners := AList.update key [] (this_listeners w)\<rparr>
                 else w)
       in (case map_of (this_listeners w1) key of
             None \<Rightarrow> Threw TypeError w1
           | Some handlers \<Rightarrow>
               let w2 = w1\<lparr>this_listeners :=
                            AList.update key (Observable_add handlers l) (this_listeners w1)\<rparr>
               in if callToInitialize
                  then (case get w2 key of
                          Inl e \<Rightarrow> Threw e w2
                        | Inr (w3, v) \<Rightarrow> react l v (call_listener w3 l v))
                  else Returned w2))"

text \<open>
  The loop of \<^verbatim>\<open>dispatch\<close> over the keys that \<^verbatim>\<open>Object.keys(this.listeners_)\<close> gave
  before the loop. The state and the observable of a key are read when the key's turn
  comes, after the listeners called before it are done.
\<close>

fun fire_changed_with :: "reaction \<Rightarrow> jsobj \<Rightarrow> string list \<Rightarrow> store \<Rightarrow> outcome" where
  "fire_changed_with react oldState [] w = Returned w"
| "fire_changed_with react oldState (key # keys) w =
    (if \<not> strict_equals (get_prop oldState key) (get_prop (the_state w) key)
     then (case map_of (this_listeners w) key of
             None \<Rightarrow> Threw TypeError w
           | Some handlers \<Rightarrow>
               (case Observable_fire_with react handlers (get_prop (the_state w) key) w of
                  Threw e w' \<Rightarrow> Threw e w'
                | Returned w' \<Rightarrow> fire_changed_with react oldState keys w'))
     else fire_changed_with react oldState keys w)"

text \<open>
  \<^verbatim>\<open>dispatch(action, data)\<close>. An exception of the reducer leaves the service as it was;
  an exception of a listener leaves it with the new state.
\<close>

definition dispatch_with :: "reaction \<Rightarrow> store \<Rightarrow> string \<Rightarrow> jsval \<Rightarrow> outcome" where
  "dispatch_with react w action data =
    (let oldState = object_assign Map.empty [the_state w]
     in case actions (heap w) (this_state w) action data of
          Inl e \<Rightarrow> Threw e w
        | Inr ((h', state'), msgs) \<Rightarrow>
            fire_changed_with react oldState (Object_keys (this_listeners w))
              (w\<lparr>heap := h', this_state := state', logged := logged w @ msgs\<rparr>))"

text \<open>
  A listener that returns at once: it does not throw and leaves the store as it is. A
  store is quiet under a reaction when every listener in its listeners object returns at
  once.
\<close>

definition returns_at_once :: "reaction \<Rightarrow> listener \<Rightarrow> bool" where
  "returns_at_once react l = (\<forall>v w. react l v w = Returned w)"

definition quiet :: "reaction \<Rightarrow> store \<Rightarrow> bool" where
  "quiet react w =
     (\<forall>(key, handlers) \<in> set (this_listeners w). \<forall>l \<in> set handlers. returns_at_once react l)"

text \<open>The reaction under which every listener returns at once.\<close>

definition at_once :: reaction where
  "at_once l v w = Returned w"

text \<open>
  Listeners that dispatch: called with a value, a listener dispatches the action and
  payload that a table gives for it, or returns at once when the table gives none. The
  listeners called by that dispatch react in the same way; \<open>n\<close> is the depth of calls
  that the call stack still has room for.
\<close>

fun dispatching ::
  "(listener \<Rightarrow> jsval \<Rightarrow> (string \<times> jsval) option) \<Rightarrow> nat \<Rightarrow> reaction" where
  "dispatching table 0 l v w = Threw RangeError w"
| "dispatching table (Suc n) l v w =
    (case table l v of
       None \<Rightarrow> Returned w
     | Some (action, data) \<Rightarrow> dispatch_with (dispatching table n) w action data)"


section \<open>Using the service\<close>

text \<open>
  What a page does with a service whose listeners return at once: it reads, subscribes,
  dispatches, and creates objects of its own (payloads). An exception is caught by the
  caller; the service is then as the operation left it, which here is as it was, since
  only the reducer throws.
\<close>

datatype command =
    Get string
  | Subscribe string listener bool
  | Dispatch string jsval
  | Allocate jsobj

fun step :: "store \<Rightarrow> command \<Rightarrow> store" where
  "step w (Get key) = (case get w key of Inl e \<Rightarrow> w | Inr (w', v) \<Rightarrow> w')"
| "step w (Subscribe key l callToInitialize) =
    (case subscribe w key l callToInitialize of Inl e \<Rightarrow> w | Inr w' \<Rightarrow> w')"
| "step w (Dispatch action data) =
    (case dispatch w action data of Inl e \<Rightarrow> w | Inr w' \<Rightarrow> w')"
| "step w (Allocate obj) = w\<lparr>heap := fst (alloc (heap w) obj)\<rparr>"

definition run :: "store \<Rightarrow> command list \<Rightarrow> store" where
  "run w cmds = foldl step w cmds"


section \<open>The specification's vocabulary\<close>

text \<open>
  The notifications of a dispatch in the specification's words: for every key with
  subscribers whose value changed, all of that key's listeners in subscription order, with
  the new value. The comparison is a parameter.
\<close>

definition notifications ::
  "(jsval \<Rightarrow> jsval \<Rightarrow> bool) \<Rightarrow> (string \<times> Observable) list \<Rightarrow> jsobj \<Rightarrow> jsobj \<Rightarrow> event list" where
  "notifications differs registry old new =
    concat (map (\<lambda>(key, handlers). map (\<lambda>l. Call l (get_prop new key)) handlers)
             (filter (\<lambda>(key, handlers). differs (get_prop old key) (get_prop new key))
                registry))"

text \<open>The fields that each action's rule in the specification lists.\<close>

fun fields_of :: "Action \<Rightarrow> string set" where
  "fields_of TOGGLE_ACCESS = {ACCESS_STATE, PAUSED_STATE}"
| "fields_of TOGGLE_AD = {AD_STATE}"
| "fields_of TOGGLE_BOOKEND = {BOOKEND_STATE}"
| "fields_of TOGGLE_INFO_DIALOG = {INFO_DIALOG_STATE, PAUSED_STATE}"
| "fields_of TOGGLE_STORY_HAS_AUDIO = {STORY_HAS_AUDIO_STATE}"
| "fields_of TOGGLE_LANDSCAPE = {LANDSCAPE_STATE}"
| "fields_of TOGGLE_MUTED = {MUTED_STATE}"
| "fields_of TOGGLE_PAGE_HAS_AUDIO = {PAGE_HAS_AUDIO_STATE}"
| "fields_of TOGGLE_PAUSED = {PAUSED_STATE}"
| "fields_of TOGGLE_RTL = {RTL_STATE}"
| "fields_of TOGGLE_SIDEBAR = {PAUSED_STATE, SIDEBAR_STATE}"
| "fields_of TOGGLE_HAS_SIDEBAR = {HAS_SIDEBAR_STATE}"
| "fields_of TOGGLE_SUPPORTED_BROWSER = {SUPPORTED_BROWSER_STATE}"
| "fields_of TOGGLE_SHARE_MENU = {PAUSED_STATE, SHARE_MENU_STATE}"
| "fields_of TOGGLE_UI = {DESKTOP_STATE, UI_STATE}"
| "fields_of SET_CONSENT_ID = {CONSENT_ID}"
| "fields_of CHANGE_PAGE = {CURRENT_PAGE_ID, CURRENT_PAGE_INDEX}"

text \<open>
  The payload each action expects: a boolean for the toggles, a \<^verbatim>\<open>UIType\<close> for
  \<^verbatim>\<open>TOGGLE_UI\<close>, a string or \<^verbatim>\<open>null\<close> for the consent id, and an object with a
  string \<^verbatim>\<open>id\<close> and a number \<^verbatim>\<open>index\<close> for a page change.
\<close>

fun is_boolean :: "jsval \<Rightarrow> bool" where
  "is_boolean (JBoolean b) = True"
| "is_boolean v = False"

fun is_string :: "jsval \<Rightarrow> bool" where
  "is_string (JString s) = True"
| "is_string v = False"

fun is_number :: "jsval \<Rightarrow> bool" where
  "is_number (JNumber n) = True"
| "is_number v = False"

fun is_page :: "heap \<Rightarrow> jsval \<Rightarrow> bool" where
  "is_page h (JObject r) =
    (r < length h \<and> is_string (get_prop (deref h r) ''id'')
     \<and> is_number (get_prop (deref h r) ''index''))"
| "is_page h v = False"

fun well_typed :: "heap \<Rightarrow> Action \<Rightarrow> jsval \<Rightarrow> bool" where
  "well_typed h TOGGLE_UI d = (d \<in> set (map UIType_value [MOBILE, DESKTOP, SCROLL]))"
| "well_typed h SET_CONSENT_ID d = (is_string d \<or> d = JNull)"
| "well_typed h CHANGE_PAGE d = is_page h d"
| "well_typed h a d = is_boolean d"

text \<open>The keys that the \<^verbatim>\<open>State\<close> typedef declares \<^verbatim>\<open>boolean\<close>.\<close>

definition boolean_keys :: "string list" where
  "boolean_keys =
    [CAN_INSERT_AUTOMATIC_AD, CAN_SHOW_BOOKEND, CAN_SHOW_NAVIGATION_OVERLAY_HINT,
     CAN_SHOW_PREVIOUS_PAGE_HELP, CAN_SHOW_SHARING_UIS, CAN_SHOW_SYSTEM_LAYER_BUTTONS,
     ACCESS_STATE, AD_STATE, BOOKEND_STATE, DESKTOP_STATE, HAS_SIDEBAR_STATE,
     INFO_DIALOG_STATE, LANDSCAPE_STATE, MUTED_STATE, PAGE_HAS_AUDIO_STATE, PAUSED_STATE,
     RTL_STATE, SHARE_MENU_STATE, SIDEBAR_STATE, STORY_HAS_AUDIO_STATE,
     SUPPORTED_BROWSER_STATE]"

text \<open>Every key declared \<^verbatim>\<open>boolean\<close> holds \<^verbatim>\<open>true\<close> or \<^verbatim>\<open>false\<close>.\<close>

definition booleans_hold :: "jsobj \<Rightarrow> bool" where
  "booleans_hold obj = (\<forall>k \<in> set boolean_keys. is_boolean (get_prop obj k))"

text \<open>The \<^verbatim>\<open>TOGGLE_*\<close> members of the \<^verbatim>\<open>Action\<close> enum.\<close>

fun is_toggle :: "Action \<Rightarrow> bool" where
  "is_toggle CHANGE_PAGE = False"
| "is_toggle SET_CONSENT_ID = False"
| "is_toggle a = True"

text \<open>
  The cases in which a rule says no-op: \<^verbatim>\<open>TOGGLE_ACCESS\<close> and \<^verbatim>\<open>TOGGLE_SIDEBAR\<close>
  when the key already equals the payload, \<^verbatim>\<open>TOGGLE_BOOKEND\<close> when the bookend cannot
  be shown. Equality is \<^verbatim>\<open>===\<close> on the payload as it is.
\<close>

fun is_no_op :: "jsobj \<Rightarrow> Action \<Rightarrow> jsval \<Rightarrow> bool" where
  "is_no_op state TOGGLE_ACCESS d = strict_equals (get_prop state ACCESS_STATE) d"
| "is_no_op state TOGGLE_SIDEBAR d = strict_equals (get_prop state SIDEBAR_STATE) d"
| "is_no_op state TOGGLE_BOOKEND d = (\<not> to_boolean (get_prop state CAN_SHOW_BOOKEND))"
| "is_no_op state a d = False"

text \<open>
  No key that has an entry in the listeners object holds \<^verbatim>\<open>NaN\<close> in the current
  snapshot.
\<close>

definition no_NaN_subscribed :: "store \<Rightarrow> bool" where
  "no_NaN_subscribed w =
     (\<forall>k \<in> set (Object_keys (this_listeners w)). get_prop (the_state w) k \<noteq> JNumber NaN)"


section \<open>Example stores\<close>

text \<open>
  A new service with three subscriptions, one of them initialised at once; and a service
  whose page index is \<^verbatim>\<open>NaN\<close>, after
  \<^verbatim>\<open>dispatch(Action.CHANGE_PAGE, {id: 'page-2', index: NaN})\<close>, with a listener on the
  page index.
\<close>

definition subscribed_store :: store where
  "subscribed_store =
     run (constructor [] NOT_EMBEDDED)
       [Subscribe MUTED_STATE 1 False, Subscribe PAUSED_STATE 2 True,
        Subscribe MUTED_STATE 3 False]"

definition page_NaN :: jsobj where
  "page_NaN = [''id'' \<mapsto> JString ''page-2'', ''index'' \<mapsto> JNumber NaN]"

definition store_NaN :: store where
  "store_NaN =
     run (constructor [page_NaN] NOT_EMBEDDED)
       [Subscribe CURRENT_PAGE_INDEX 7 False,
        Dispatch (Action_value CHANGE_PAGE) (JObject 0)]"


text \<open>
  Three services with listeners that dispatch. On the first, the listener of
  \<^verbatim>\<open>'pausedstate'\<close> resumes playback: it dispatches \<^verbatim>\<open>TOGGLE_PAUSED\<close> with
  \<^verbatim>\<open>false\<close>. On the second, the listener of \<^verbatim>\<open>'sidebarstate'\<close> closes the sidebar
  when it is told that it opened. On the third, the listener of \<^verbatim>\<open>'pausedstate'\<close>
  unmutes, and \<^verbatim>\<open>'mutedstate'\<close> has a listener that only returns.
\<close>

definition resumes :: "listener \<Rightarrow> jsval \<Rightarrow> (string \<times> jsval) option" where
  "resumes l v = Some (Action_value TOGGLE_PAUSED, JBoolean False)"

definition pause_watched :: store where
  "pause_watched = run (constructor [] NOT_EMBEDDED) [Subscribe PAUSED_STATE 2 False]"

definition closes_sidebar :: "listener \<Rightarrow> jsval \<Rightarrow> (string \<times> jsval) option" where
  "closes_sidebar l v =
     (if v = JBoolean True then Some (Action_value TOGGLE_SIDEBAR, JBoolean False) else None)"

definition sidebar_watched :: store where
  "sidebar_watched = run (constructor [] NOT_EMBEDDED) [Subscribe SIDEBAR_STATE 5 False]"

definition unmutes :: "listener \<Rightarrow> jsval \<Rightarrow> (string \<times> jsval) option" where
  "unmutes l v = (if l = 2 then Some (Action_value TOGGLE_MUTED, JBoolean False) else None)"

definition pause_and_mute_watched :: store where
  "pause_and_mute_watched =
     run (constructor [] NOT_EMBEDDED)
       [Subscribe PAUSED_STATE 2 False, Subscribe MUTED_STATE 1 False]"


section \<open>Auxiliary definitions\<close>

text \<open>
  The listener calls that the loop of \<^verbatim>\<open>dispatch\<close> makes over a list of keys, as one
  expression: used to state what the loop computes.
\<close>

definition fired ::
  "jsobj \<Rightarrow> jsobj \<Rightarrow> (string \<times> Observable) list \<Rightarrow> string list \<Rightarrow> event list" where
  "fired old new registry keys =
     concat (map (\<lambda>key. if \<not> strict_equals (get_prop old key) (get_prop new key)
                         then Observable_fire (the (map_of registry key)) (get_prop new key)
                         else []) keys)"


section \<open>Basic facts\<close>

subsection \<open>The switch\<close>

text \<open>The names of the actions stay folded; the switch is decided by the lemmas below.\<close>

declare Action_value.simps [simp del]

lemma switch_action_value: "switch_action (Action_value a) = Some a"
  by (cases a) (simp_all add: switch_action_def Action_value.simps)

lemma switch_action_Some: "switch_action s = Some a \<Longrightarrow> s = Action_value a"
  by (auto simp: switch_action_def Action_value.simps split: if_splits)


subsection \<open>Heap and state\<close>

lemma deref_append: "deref (h @ [obj]) r = (if r = length h then obj else deref h r)"
  by (simp add: deref_def nth_append)

lemma assign_state_eq: "assign_state h s props = (h @ [deref h s ++ props], length h)"
  by (simp add: assign_state_def alloc_def object_assign_def)

lemma the_state_simps [simp]:
  "the_state (w\<lparr>logged := x\<rparr>) = the_state w"
  "the_state (w\<lparr>called := y\<rparr>) = the_state w"
  "the_state (w\<lparr>this_listeners := z\<rparr>) = the_state w"
  by (simp_all add: the_state_def)

lemma constructor_eq:
  "constructor h em =
    \<lparr>heap = h @ [getDefaultState ++ getEmbedOverrides em], this_listeners = [],
     this_state = length h, logged = [], called = []\<rparr>"
  by (simp add: constructor_def alloc_def object_assign_def)

lemma the_state_constructor:
  "the_state (constructor h em) = getDefaultState ++ getEmbedOverrides em"
  by (simp add: constructor_eq the_state_def deref_def)

subsection \<open>The reducer\<close>

lemmas actions_enum =
  actions_def [where action = "Action_value a" for a, unfolded switch_action_value]

lemma actions_unknown:
  "switch_action a = None \<Longrightarrow>
   actions h s a d = Inr ((h, s), [(TAG, ''Unknown action '' @ a @ ''.'')])"
  by (simp add: actions_def)

subsection \<open>The notification loop\<close>

lemma fire_changed_eq:
  "set keys \<subseteq> fst ` set (this_listeners w) \<Longrightarrow>
   fire_changed old keys w =
     Inr (w\<lparr>called := called w @ fired old (the_state w) (this_listeners w) keys\<rparr>)"
proof (induction keys arbitrary: w)
  case Nil
  then show ?case by (simp add: fired_def)
next
  case (Cons key keys)
  from Cons.prems obtain handlers where h: "map_of (this_listeners w) key = Some handlers"
    by (cases "map_of (this_listeners w) key") (auto simp: map_of_eq_None_iff)
  show ?case
  proof (cases "strict_equals (get_prop old key) (get_prop (the_state w) key)")
    case True
    with Cons show ?thesis by (simp add: fired_def)
  next
    case False
    let ?w = "w\<lparr>called := called w @ Observable_fire handlers (get_prop (the_state w) key)\<rparr>"
    have "set keys \<subseteq> fst ` set (this_listeners ?w)" using Cons.prems by simp
    from Cons.IH [OF this] False h show ?thesis by (simp add: fired_def)
  qed
qed

lemma concat_map_filter:
  "concat (map (\<lambda>(k, v). if P k then F k v else []) xs)
   = concat (map (\<lambda>(k, v). F k v) (filter (\<lambda>(k, v). P k) xs))"
  by (induction xs) auto

lemma fired_distinct:
  assumes d: "distinct (map fst registry)"
  shows "fired old new registry (Object_keys registry) =
     notifications (\<lambda>a b. \<not> strict_equals a b) registry old new"
proof -
  have eq: "\<forall>x\<in>set registry. the (map_of registry (fst x)) = snd x"
    using d by (auto simp: map_of_is_SomeI)
  have "fired old new registry (map fst registry) =
        concat (map (\<lambda>(key, handlers).
                  if \<not> strict_equals (get_prop old key) (get_prop new key)
                  then map (\<lambda>l. Call l (get_prop new key)) handlers else []) registry)"
    unfolding fired_def Observable_fire_def map_map
    by (rule arg_cong [where f = concat], rule map_cong) (use eq in auto)
  then show ?thesis
    unfolding notifications_def Object_keys_def
    by (simp add: concat_map_filter [symmetric])
qed

lemma dispatch_eq:
  assumes "actions (heap w) (this_state w) a d = Inr ((h', s'), msgs)"
  shows "dispatch w a d =
    Inr (w\<lparr>heap := h', this_state := s', logged := logged w @ msgs,
           called := called w @ fired (the_state w) (deref h' s') (this_listeners w)
                                  (Object_keys (this_listeners w))\<rparr>)"
  using assms
  by (simp add: dispatch_def object_assign_def Object_keys_def fire_changed_eq the_state_def)

lemma dispatch_throws:
  "actions (heap w) (this_state w) a d = Inl e \<Longrightarrow> dispatch w a d = Inl e"
  by (simp add: dispatch_def)

lemma dispatch_alt:
  "dispatch w a d =
    (case actions (heap w) (this_state w) a d of
       Inl e \<Rightarrow> Inl e
     | Inr ((h', s'), msgs) \<Rightarrow>
         Inr (w\<lparr>heap := h', this_state := s', logged := logged w @ msgs,
                called := called w @ fired (the_state w) (deref h' s') (this_listeners w)
                                  (Object_keys (this_listeners w))\<rparr>))"
  by (auto simp: dispatch_eq dispatch_throws split: sum.splits)

lemma dispatch_same_state:
  assumes "actions (heap w) (this_state w) a d = Inr ((heap w, this_state w), msgs)"
  shows "dispatch w a d =
    Inr (w\<lparr>logged := logged w @ msgs,
           called := called w @ fired (the_state w) (the_state w) (this_listeners w)
                                  (Object_keys (this_listeners w))\<rparr>)"
  by (simp add: dispatch_eq [OF assms] the_state_def)

lemma dispatch_called:
  assumes "dispatch w a d = Inr w'"
  shows "this_listeners w' = this_listeners w
       \<and> called w' = called w @ fired (the_state w) (the_state w') (this_listeners w)
                                   (Object_keys (this_listeners w))"
  using assms
  by (auto simp: dispatch_alt the_state_def split: sum.splits)

text \<open>When the snapshot is kept, only keys that hold \<^verbatim>\<open>NaN\<close> notify.\<close>

lemma fired_same_nil:
  "\<forall>k\<in>set keys. get_prop obj k \<noteq> JNumber NaN \<Longrightarrow> fired obj obj registry keys = []"
  by (induction keys) (simp_all add: fired_def strict_equals_def)

lemma fired_same_NaN:
  "e \<in> set (fired obj obj registry keys) \<Longrightarrow> \<exists>l. e = Call l (JNumber NaN)"
  by (auto simp: fired_def strict_equals_def Observable_fire_def split: if_splits)

subsection \<open>Listeners that return at once\<close>

text \<open>
  When the listeners of a store return at once, \<open>dispatch_with\<close> is \<open>dispatch\<close> and
  \<open>subscribe_with\<close> is \<open>subscribe\<close>.
\<close>

lemma Observable_fire_with_at_once:
  "\<forall>l \<in> set handlers. returns_at_once react l \<Longrightarrow>
   Observable_fire_with react handlers v w
     = Returned (w\<lparr>called := called w @ Observable_fire handlers v\<rparr>)"
  by (induction handlers arbitrary: w)
     (simp_all add: returns_at_once_def call_listener_def Observable_fire_def)

lemma quiet_cong:
  "this_listeners w' = this_listeners w \<Longrightarrow> quiet react w' = quiet react w"
  by (simp add: quiet_def)

lemma quiet_handlers:
  "quiet react w \<Longrightarrow> map_of (this_listeners w) key = Some handlers \<Longrightarrow>
   \<forall>l \<in> set handlers. returns_at_once react l"
  by (auto simp: quiet_def dest!: map_of_SomeD)

lemma fire_changed_with_quiet:
  "quiet react w \<Longrightarrow> set keys \<subseteq> fst ` set (this_listeners w) \<Longrightarrow>
   fire_changed_with react old keys w =
     Returned (w\<lparr>called := called w @ fired old (the_state w) (this_listeners w) keys\<rparr>)"
proof (induction keys arbitrary: w)
  case Nil
  then show ?case by (simp add: fired_def)
next
  case (Cons key keys)
  from Cons.prems obtain handlers where h: "map_of (this_listeners w) key = Some handlers"
    by (cases "map_of (this_listeners w) key") (auto simp: map_of_eq_None_iff)
  show ?case
  proof (cases "strict_equals (get_prop old key) (get_prop (the_state w) key)")
    case True
    with Cons show ?thesis by (simp add: fired_def)
  next
    case False
    let ?w = "w\<lparr>called := called w @ Observable_fire handlers (get_prop (the_state w) key)\<rparr>"
    have p: "quiet react ?w" using Cons.prems(1) by (simp add: quiet_def)
    have k: "set keys \<subseteq> fst ` set (this_listeners ?w)" using Cons.prems by simp
    from Cons.IH [OF p k] False h
         Observable_fire_with_at_once [OF quiet_handlers [OF Cons.prems(1) h]]
    show ?thesis by (simp add: fired_def)
  qed
qed

lemma dispatch_with_quiet:
  assumes "quiet react w"
  shows "dispatch_with react w a d =
           (case dispatch w a d of Inl e \<Rightarrow> Threw e w | Inr w' \<Rightarrow> Returned w')"
proof (cases "actions (heap w) (this_state w) a d")
  case (Inl e)
  then show ?thesis by (simp add: dispatch_with_def dispatch_throws)
next
  case (Inr r)
  obtain h' s' msgs where r: "r = ((h', s'), msgs)" by (cases r) auto
  let ?w = "w\<lparr>heap := h', this_state := s', logged := logged w @ msgs\<rparr>"
  have p: "quiet react ?w" using assms by (simp add: quiet_def)
  have k: "set (Object_keys (this_listeners w)) \<subseteq> fst ` set (this_listeners ?w)"
    by (simp add: Object_keys_def)
  from fire_changed_with_quiet [OF p k] Inr r show ?thesis
    by (simp add: dispatch_with_def dispatch_eq object_assign_def the_state_def)
qed

lemma dispatch_with_Returned:
  "quiet react w \<Longrightarrow> dispatch w a d = Inr w' \<Longrightarrow>
   dispatch_with react w a d = Returned w' \<and> quiet react w'"
  using dispatch_called [of w a d w'] quiet_cong [of w' w react]
  by (simp add: dispatch_with_quiet)

lemma subscribe_with_at_once:
  assumes "returns_at_once react l"
  shows "\<exists>w'. subscribe w k l c = Inr w' \<and> subscribe_with react w k l c = Returned w'"
  using assms
  by (auto simp: subscribe_def subscribe_with_def Let_def get_def update_conv'
        returns_at_once_def split: option.splits)

lemma quiet_at_once: "quiet at_once w"
  by (simp add: quiet_def returns_at_once_def at_once_def)

subsection \<open>Reading the state\<close>

lemma get_known: "the_state w k = Some v \<Longrightarrow> get w k = Inr (w, v)"
  by (simp add: get_def hasOwn_def get_prop_def)

lemma get_prop_defined:
  "get_prop obj k = v \<Longrightarrow> v \<noteq> JUndefined \<Longrightarrow> obj k = Some v"
  by (auto simp: get_prop_def split: option.splits)


subsection \<open>The example stores\<close>

lemma actions_CHANGE_PAGE:
  "actions h s (Action_value CHANGE_PAGE) d =
    (case get_member h d ''id'' of
       Inl e \<Rightarrow> Inl e
     | Inr page_id \<Rightarrow>
        (case get_member h d ''index'' of
           Inl e \<Rightarrow> Inl e
         | Inr page_index \<Rightarrow>
             Inr ((h @ [(deref h s)(CURRENT_PAGE_ID \<mapsto> page_id,
                                    CURRENT_PAGE_INDEX \<mapsto> page_index)], length h), [])))"
  by (simp add: actions_enum assign_state_eq split: sum.splits)

lemma subscribed_store_eq:
  "subscribed_store =
    \<lparr>heap = [getDefaultState],
     this_listeners = [(MUTED_STATE, [1, 3]), (PAUSED_STATE, [2])],
     this_state = 0, logged = [], called = [Call 2 (JBoolean False)]\<rparr>"
  unfolding subscribed_store_def run_def
  by (simp add: constructor_eq subscribe_def get_def hasOwn_def the_state_def deref_def
        get_prop_def getDefaultState_def Observable_add_def call_listener_def)

lemma no_NaN_subscribed_store: "no_NaN_subscribed subscribed_store"
  by (simp add: no_NaN_subscribed_def subscribed_store_eq Object_keys_def the_state_def
        deref_def get_prop_def getDefaultState_def)

lemma store_NaN_eq:
  "store_NaN =
    \<lparr>heap = [page_NaN, getDefaultState,
             getDefaultState(CURRENT_PAGE_ID \<mapsto> JString ''page-2'',
                             CURRENT_PAGE_INDEX \<mapsto> JNumber NaN)],
     this_listeners = [(CURRENT_PAGE_INDEX, [7])],
     this_state = 2, logged = [], called = [Call 7 (JNumber NaN)]\<rparr>"
  unfolding store_NaN_def run_def
  by (simp add: constructor_eq subscribe_def hasOwn_def the_state_def deref_def
        get_prop_def getDefaultState_def Observable_add_def dispatch_alt actions_CHANGE_PAGE
        page_NaN_def Object_keys_def fired_def strict_equals_def Observable_fire_def)

text \<open>The stores with listeners that dispatch, and the rules that run a dispatch on them.\<close>

lemma default_values:
  "getDefaultState ACCESS_STATE = Some (JBoolean False)"
  "getDefaultState PAUSED_STATE = Some (JBoolean False)"
  "getDefaultState SIDEBAR_STATE = Some (JBoolean False)"
  "getDefaultState MUTED_STATE = Some (JBoolean True)"
  by (simp_all add: getDefaultState_def)

lemmas run_dispatch_with =
  dispatch_with_def Let_def the_state_def deref_def get_prop_def strict_equals_def
  Object_keys_def object_assign_def call_listener_def default_values numeral_3_eq_3

lemma pause_watched_eq:
  "pause_watched =
    \<lparr>heap = [getDefaultState], this_listeners = [(PAUSED_STATE, [2])],
     this_state = 0, logged = [], called = []\<rparr>"
  unfolding pause_watched_def run_def
  by (simp add: constructor_eq subscribe_def hasOwn_def the_state_def deref_def
        default_values Observable_add_def)

lemma sidebar_watched_eq:
  "sidebar_watched =
    \<lparr>heap = [getDefaultState], this_listeners = [(SIDEBAR_STATE, [5])],
     this_state = 0, logged = [], called = []\<rparr>"
  unfolding sidebar_watched_def run_def
  by (simp add: constructor_eq subscribe_def hasOwn_def the_state_def deref_def
        default_values Observable_add_def)

lemma pause_and_mute_watched_eq:
  "pause_and_mute_watched =
    \<lparr>heap = [getDefaultState],
     this_listeners = [(PAUSED_STATE, [2]), (MUTED_STATE, [1])],
     this_state = 0, logged = [], called = []\<rparr>"
  unfolding pause_and_mute_watched_def run_def
  by (simp add: constructor_eq subscribe_def hasOwn_def the_state_def deref_def
        default_values Observable_add_def)


section \<open>Unknown keys\<close>

text \<open>
  C4. For a key \<open>k\<close> that is not a key of the state snapshot, \<^verbatim>\<open>get(k)\<close> returns
  \<^verbatim>\<open>undefined\<close> and does not throw, and \<^verbatim>\<open>subscribe(k, listener, callToInitialize)\<close>
  returns without registering anything and without calling the listener, whatever
  \<^verbatim>\<open>callToInitialize\<close> is. Each logs one developer error and changes nothing else.
\<close>

theorem unknown_key_absorbed:
  assumes "k \<notin> dom (the_state w)"
  shows "get w k = Inr (w\<lparr>logged := logged w @ [(TAG, ''Unknown state '' @ k @ ''.'')]\<rparr>,
                        JUndefined)
       \<and> subscribe w k l callToInitialize =
           Inr (w\<lparr>logged := logged w
                    @ [(TAG, ''Can't subscribe to unknown state '' @ k @ ''.'')]\<rparr>)
       \<and> (\<forall>w'. subscribe w k l callToInitialize = Inr w' \<longrightarrow>
             this_listeners w' = this_listeners w \<and> called w' = called w)"
  using assms by (auto simp: get_def subscribe_def hasOwn_def dev_error_def)

theorem unknown_key_absorbed_witness:
  "''nosuchstate'' \<notin> dom (the_state (constructor [] NOT_EMBEDDED))
   \<and> get (constructor [] NOT_EMBEDDED) ''nosuchstate'' =
       Inr ((constructor [] NOT_EMBEDDED)\<lparr>logged := [(TAG, ''Unknown state nosuchstate.'')]\<rparr>,
            JUndefined)
   \<and> subscribe (constructor [] NOT_EMBEDDED) ''nosuchstate'' 5 True =
       Inr ((constructor [] NOT_EMBEDDED)
              \<lparr>logged := [(TAG, ''Can't subscribe to unknown state nosuchstate.'')]\<rparr>)"
proof -
  have k: "''nosuchstate'' \<notin> dom (the_state (constructor [] NOT_EMBEDDED))"
    by (simp add: the_state_constructor getDefaultState_def)
  from unknown_key_absorbed [OF k, of 5 True] k show ?thesis
    by (simp add: constructor_eq)
qed


section \<open>The access paywall\<close>

lemma actions_TOGGLE_ACCESS:
  "actions h s (Action_value TOGGLE_ACCESS) d =
    (if strict_equals (get_prop (deref h s) ACCESS_STATE) d then Inr ((h, s), [])
     else Inr ((h @ [(deref h s)(ACCESS_STATE \<mapsto> JBoolean (to_boolean d),
                                 PAUSED_STATE \<mapsto> JBoolean (to_boolean d))], length h), []))"
  unfolding actions_def switch_action_value by (simp add: assign_state_eq)

lemma actions_TOGGLE_PAUSED:
  "actions h s (Action_value TOGGLE_PAUSED) d =
     Inr ((h @ [(deref h s)(PAUSED_STATE \<mapsto> JBoolean (to_boolean d))], length h), [])"
  unfolding actions_def switch_action_value by (simp add: assign_state_eq)

lemma dispatch_TOGGLE_ACCESS:
  "\<exists>w'. dispatch w (Action_value TOGGLE_ACCESS) d = Inr w'
      \<and> (if strict_equals (get_prop (the_state w) ACCESS_STATE) d
          then the_state w' = the_state w \<and> this_state w' = this_state w
               \<and> heap w' = heap w
          else the_state w' = (the_state w)(ACCESS_STATE \<mapsto> JBoolean (to_boolean d),
                                           PAUSED_STATE \<mapsto> JBoolean (to_boolean d)))"
  by (simp add: dispatch_alt actions_TOGGLE_ACCESS the_state_def deref_append)

lemma access_pair_at_once:
  assumes "get_prop (the_state w) ACCESS_STATE = JBoolean b"
  shows "\<exists>w1 w2.
      dispatch w (Action_value TOGGLE_ACCESS) (JBoolean True) = Inr w1
    \<and> get w1 ACCESS_STATE = Inr (w1, JBoolean True)
    \<and> (if b then the_state w1 = the_state w \<and> this_state w1 = this_state w
        else get w1 PAUSED_STATE = Inr (w1, JBoolean True))
    \<and> dispatch w1 (Action_value TOGGLE_ACCESS) (JBoolean False) = Inr w2
    \<and> get w2 ACCESS_STATE = Inr (w2, JBoolean False)
    \<and> get w2 PAUSED_STATE = Inr (w2, JBoolean False)"
proof -
  let ?A = "Action_value TOGGLE_ACCESS"
  from dispatch_TOGGLE_ACCESS [of w "JBoolean True"] assms
  obtain w1 where w1: "dispatch w ?A (JBoolean True) = Inr w1"
    and s1: "if b then the_state w1 = the_state w \<and> this_state w1 = this_state w
             else the_state w1 = (the_state w)(ACCESS_STATE \<mapsto> JBoolean True,
                                              PAUSED_STATE \<mapsto> JBoolean True)"
    by (auto simp: strict_equals_def)
  have a1: "the_state w1 ACCESS_STATE = Some (JBoolean True)"
    using s1 get_prop_defined [OF assms] by (cases b) auto
  then have g1: "get_prop (the_state w1) ACCESS_STATE = JBoolean True"
    by (simp add: get_prop_def)
  from dispatch_TOGGLE_ACCESS [of w1 "JBoolean False"] g1
  obtain w2 where w2: "dispatch w1 ?A (JBoolean False) = Inr w2"
    and s2: "the_state w2 = (the_state w1)(ACCESS_STATE \<mapsto> JBoolean False,
                                          PAUSED_STATE \<mapsto> JBoolean False)"
    by (auto simp: strict_equals_def)
  show ?thesis
    using w1 w2 a1 s1 s2 by (cases b) (auto simp: get_known)
qed


text \<open>
  C1, as amended. Let access-state hold a boolean \<open>b\<close>, and let every subscribed listener
  return at once, without throwing and without calling back into the store.
  \<^verbatim>\<open>dispatch(TOGGLE_ACCESS, true)\<close> returns, and \<^verbatim>\<open>get('accessstate')\<close> is then
  \<^verbatim>\<open>true\<close>. If access-state was \<^verbatim>\<open>false\<close>, \<^verbatim>\<open>get('pausedstate')\<close> is \<^verbatim>\<open>true\<close> as
  well; if access-state was already \<^verbatim>\<open>true\<close>, the dispatch keeps the same snapshot, so
  paused-state keeps the value it had. In both cases a following
  \<^verbatim>\<open>dispatch(TOGGLE_ACCESS, false)\<close> returns, and both keys then read \<^verbatim>\<open>false\<close>.
\<close>

theorem toggle_access_pair:
  assumes "get_prop (the_state w) ACCESS_STATE = JBoolean b" and "quiet react w"
  shows "\<exists>w1 w2.
      dispatch_with react w (Action_value TOGGLE_ACCESS) (JBoolean True) = Returned w1
    \<and> get w1 ACCESS_STATE = Inr (w1, JBoolean True)
    \<and> (if b then the_state w1 = the_state w \<and> this_state w1 = this_state w
        else get w1 PAUSED_STATE = Inr (w1, JBoolean True))
    \<and> dispatch_with react w1 (Action_value TOGGLE_ACCESS) (JBoolean False) = Returned w2
    \<and> get w2 ACCESS_STATE = Inr (w2, JBoolean False)
    \<and> get w2 PAUSED_STATE = Inr (w2, JBoolean False)"
proof -
  let ?A = "Action_value TOGGLE_ACCESS"
  from access_pair_at_once [OF assms(1)]
  obtain w1 w2 where w1: "dispatch w ?A (JBoolean True) = Inr w1"
    and w2: "dispatch w1 ?A (JBoolean False) = Inr w2"
    and r: "get w1 ACCESS_STATE = Inr (w1, JBoolean True)"
      "if b then the_state w1 = the_state w \<and> this_state w1 = this_state w
       else get w1 PAUSED_STATE = Inr (w1, JBoolean True)"
      "get w2 ACCESS_STATE = Inr (w2, JBoolean False)"
      "get w2 PAUSED_STATE = Inr (w2, JBoolean False)"
    by blast
  from dispatch_with_Returned [OF assms(2) w1]
  have d1: "dispatch_with react w ?A (JBoolean True) = Returned w1" and q1: "quiet react w1"
    by simp_all
  from dispatch_with_Returned [OF q1 w2]
  have d2: "dispatch_with react w1 ?A (JBoolean False) = Returned w2" by simp
  from d1 d2 r show ?thesis by blast
qed

lemma subscribed_store_access:
  "get_prop (the_state subscribed_store) ACCESS_STATE = JBoolean False"
  by (simp add: subscribed_store_eq the_state_def deref_def get_prop_def getDefaultState_def)

theorem toggle_access_pair_witness:
  "get_prop (the_state subscribed_store) ACCESS_STATE = JBoolean False
   \<and> quiet at_once subscribed_store
   \<and> (\<exists>w1 w2.
        dispatch_with at_once subscribed_store (Action_value TOGGLE_ACCESS) (JBoolean True)
          = Returned w1
      \<and> get w1 ACCESS_STATE = Inr (w1, JBoolean True)
      \<and> get w1 PAUSED_STATE = Inr (w1, JBoolean True)
      \<and> dispatch_with at_once w1 (Action_value TOGGLE_ACCESS) (JBoolean False) = Returned w2
      \<and> get w2 ACCESS_STATE = Inr (w2, JBoolean False)
      \<and> get w2 PAUSED_STATE = Inr (w2, JBoolean False))"
  using toggle_access_pair [OF subscribed_store_access quiet_at_once]
        subscribed_store_access quiet_at_once [of subscribed_store]
  by simp

text \<open>
  The condition on the listeners is needed. On a new service whose listener of
  \<^verbatim>\<open>'pausedstate'\<close> resumes playback, \<^verbatim>\<open>dispatch(TOGGLE_ACCESS, true)\<close> from
  access-state \<^verbatim>\<open>false\<close> returns with paused-state \<^verbatim>\<open>false\<close>: the listener is called
  with \<^verbatim>\<open>true\<close>, and again with \<^verbatim>\<open>false\<close> by its own dispatch.
\<close>

lemma resuming_listener_unpauses:
  "dispatch_with (dispatching resumes (Suc (Suc n))) pause_watched
     (Action_value TOGGLE_ACCESS) (JBoolean True) =
   Returned
    \<lparr>heap = [getDefaultState,
             getDefaultState(ACCESS_STATE \<mapsto> JBoolean True, PAUSED_STATE \<mapsto> JBoolean True),
             getDefaultState(ACCESS_STATE \<mapsto> JBoolean True, PAUSED_STATE \<mapsto> JBoolean False),
             getDefaultState(ACCESS_STATE \<mapsto> JBoolean True, PAUSED_STATE \<mapsto> JBoolean False)],
     this_listeners = [(PAUSED_STATE, [2])], this_state = 3, logged = [],
     called = [Call 2 (JBoolean True), Call 2 (JBoolean False)]\<rparr>"
  unfolding pause_watched_eq
  by (simp add: run_dispatch_with actions_TOGGLE_ACCESS actions_TOGGLE_PAUSED resumes_def)

text \<open>
  The claim as worded fails where the paywall is shown and playback has been resumed: the
  store after \<^verbatim>\<open>dispatch(TOGGLE_ACCESS, true)\<close> and \<^verbatim>\<open>dispatch(TOGGLE_PAUSED, false)\<close>
  on a new service. Both keys hold booleans, and a further
  \<^verbatim>\<open>dispatch(TOGGLE_ACCESS, true)\<close> leaves the store as it is, paused-state \<^verbatim>\<open>false\<close>.
\<close>

lemma paywall_shown_playing:
  "run (constructor [] NOT_EMBEDDED)
     [Dispatch (Action_value TOGGLE_ACCESS) (JBoolean True),
      Dispatch (Action_value TOGGLE_PAUSED) (JBoolean False)] =
    \<lparr>heap = [getDefaultState,
             getDefaultState(ACCESS_STATE \<mapsto> JBoolean True, PAUSED_STATE \<mapsto> JBoolean True),
             getDefaultState(ACCESS_STATE \<mapsto> JBoolean True, PAUSED_STATE \<mapsto> JBoolean False)],
     this_listeners = [], this_state = 2, logged = [], called = []\<rparr>"
  unfolding run_def
  by (simp add: constructor_eq dispatch_alt actions_TOGGLE_ACCESS actions_TOGGLE_PAUSED
        the_state_def deref_def get_prop_def strict_equals_def getDefaultState_def
        Object_keys_def fired_def)

theorem toggle_access_pair_counterexample:
  "get (run (constructor [] NOT_EMBEDDED)
          [Dispatch (Action_value TOGGLE_ACCESS) (JBoolean True),
           Dispatch (Action_value TOGGLE_PAUSED) (JBoolean False)]) ACCESS_STATE
     = Inr (run (constructor [] NOT_EMBEDDED)
              [Dispatch (Action_value TOGGLE_ACCESS) (JBoolean True),
               Dispatch (Action_value TOGGLE_PAUSED) (JBoolean False)], JBoolean True)
   \<and> get (run (constructor [] NOT_EMBEDDED)
          [Dispatch (Action_value TOGGLE_ACCESS) (JBoolean True),
           Dispatch (Action_value TOGGLE_PAUSED) (JBoolean False)]) PAUSED_STATE
     = Inr (run (constructor [] NOT_EMBEDDED)
              [Dispatch (Action_value TOGGLE_ACCESS) (JBoolean True),
               Dispatch (Action_value TOGGLE_PAUSED) (JBoolean False)], JBoolean False)
   \<and> get (run (constructor [] NOT_EMBEDDED)
          [Dispatch (Action_value TOGGLE_ACCESS) (JBoolean True),
           Dispatch (Action_value TOGGLE_PAUSED) (JBoolean False),
           Dispatch (Action_value TOGGLE_ACCESS) (JBoolean True)]) PAUSED_STATE
     = Inr (run (constructor [] NOT_EMBEDDED)
              [Dispatch (Action_value TOGGLE_ACCESS) (JBoolean True),
               Dispatch (Action_value TOGGLE_PAUSED) (JBoolean False),
               Dispatch (Action_value TOGGLE_ACCESS) (JBoolean True)], JBoolean False)"
proof -
  let ?w = "run (constructor [] NOT_EMBEDDED)
     [Dispatch (Action_value TOGGLE_ACCESS) (JBoolean True),
      Dispatch (Action_value TOGGLE_PAUSED) (JBoolean False)]"
  have noop: "dispatch ?w (Action_value TOGGLE_ACCESS) (JBoolean True) = Inr ?w"
    unfolding paywall_shown_playing
    by (simp add: dispatch_alt actions_TOGGLE_ACCESS the_state_def deref_def get_prop_def
          strict_equals_def Object_keys_def fired_def)
  have again: "run (constructor [] NOT_EMBEDDED)
     [Dispatch (Action_value TOGGLE_ACCESS) (JBoolean True),
      Dispatch (Action_value TOGGLE_PAUSED) (JBoolean False),
      Dispatch (Action_value TOGGLE_ACCESS) (JBoolean True)] = ?w"
    using noop foldl_append [of step "constructor [] NOT_EMBEDDED"
      "[Dispatch (Action_value TOGGLE_ACCESS) (JBoolean True),
        Dispatch (Action_value TOGGLE_PAUSED) (JBoolean False)]"
      "[Dispatch (Action_value TOGGLE_ACCESS) (JBoolean True)]"]
    by (simp add: run_def)
  have "get ?w ACCESS_STATE = Inr (?w, JBoolean True)"
    and "get ?w PAUSED_STATE = Inr (?w, JBoolean False)"
    unfolding paywall_shown_playing
    by (simp_all add: get_def hasOwn_def the_state_def deref_def get_prop_def)
  with again show ?thesis by simp
qed


section \<open>Opening the sidebar twice\<close>

lemma actions_TOGGLE_SIDEBAR:
  "actions h s (Action_value TOGGLE_SIDEBAR) d =
    (if strict_equals (get_prop (deref h s) SIDEBAR_STATE) d then Inr ((h, s), [])
     else Inr ((h @ [(deref h s)(PAUSED_STATE \<mapsto> JBoolean (to_boolean d),
                                 SIDEBAR_STATE \<mapsto> JBoolean (to_boolean d))], length h), []))"
  by (simp add: actions_enum assign_state_eq)

lemma sidebar_twice_at_once:
  "\<exists>w1 w2 es.
      dispatch w (Action_value TOGGLE_SIDEBAR) (JBoolean b) = Inr w1
    \<and> actions (heap w1) (this_state w1) (Action_value TOGGLE_SIDEBAR) (JBoolean b)
        = Inr ((heap w1, this_state w1), [])
    \<and> dispatch w1 (Action_value TOGGLE_SIDEBAR) (JBoolean b) = Inr w2
    \<and> w2 = w1\<lparr>called := called w1 @ es\<rparr>
    \<and> (\<forall>e \<in> set es. \<exists>l. e = Call l (JNumber NaN))
    \<and> (no_NaN_subscribed w \<longrightarrow> es = [])"
proof -
  let ?A = "Action_value TOGGLE_SIDEBAR"
  let ?d = "JBoolean b"
  have "\<exists>w1. dispatch w ?A ?d = Inr w1 \<and> this_listeners w1 = this_listeners w
          \<and> the_state w1 SIDEBAR_STATE = Some ?d
          \<and> (\<forall>k. get_prop (the_state w1) k = JNumber NaN \<longrightarrow>
                    get_prop (the_state w) k = JNumber NaN)"
    by (auto simp: dispatch_alt actions_TOGGLE_SIDEBAR the_state_def deref_append
          strict_equals_def get_prop_def split: option.splits)
  then obtain w1 where w1: "dispatch w ?A ?d = Inr w1"
    and l1: "this_listeners w1 = this_listeners w"
    and s1: "the_state w1 SIDEBAR_STATE = Some ?d"
    and n1: "\<And>k. get_prop (the_state w1) k = JNumber NaN \<Longrightarrow>
                   get_prop (the_state w) k = JNumber NaN"
    by blast
  let ?es = "fired (the_state w1) (the_state w1) (this_listeners w1)
               (Object_keys (this_listeners w1))"
  have a2: "actions (heap w1) (this_state w1) ?A ?d = Inr ((heap w1, this_state w1), [])"
    using s1 by (simp add: actions_TOGGLE_SIDEBAR the_state_def get_prop_def strict_equals_def)
  have d2: "dispatch w1 ?A ?d = Inr (w1\<lparr>called := called w1 @ ?es\<rparr>)"
    by (simp add: dispatch_same_state [OF a2])
  have "no_NaN_subscribed w \<longrightarrow> ?es = []"
    using n1 l1 by (auto simp: no_NaN_subscribed_def intro!: fired_same_nil)
  with w1 a2 d2 fired_same_NaN show ?thesis by blast
qed


text \<open>
  C2, as amended. Let every subscribed listener return at once, without throwing and
  without calling back into the store. For every boolean \<open>b\<close> and every such store,
  \<^verbatim>\<open>dispatch(TOGGLE_SIDEBAR, b)\<close> twice in a row changes the state at most once: both
  dispatches return, in the second the reducer returns the reference it was given and
  logs nothing, and the second dispatch changes nothing of the store but the record of
  listener calls. The listeners it calls are those of keys that hold \<^verbatim>\<open>NaN\<close>, which
  \<^verbatim>\<open>!==\<close> finds different from itself; when no key with subscribers holds \<^verbatim>\<open>NaN\<close>
  the second dispatch calls no listener.
\<close>

theorem toggle_sidebar_twice:
  assumes "quiet react w"
  shows "\<exists>w1 w2 es.
      dispatch_with react w (Action_value TOGGLE_SIDEBAR) (JBoolean b) = Returned w1
    \<and> actions (heap w1) (this_state w1) (Action_value TOGGLE_SIDEBAR) (JBoolean b)
        = Inr ((heap w1, this_state w1), [])
    \<and> dispatch_with react w1 (Action_value TOGGLE_SIDEBAR) (JBoolean b) = Returned w2
    \<and> w2 = w1\<lparr>called := called w1 @ es\<rparr>
    \<and> (\<forall>e \<in> set es. \<exists>l. e = Call l (JNumber NaN))
    \<and> (no_NaN_subscribed w \<longrightarrow> es = [])"
proof -
  let ?A = "Action_value TOGGLE_SIDEBAR"
  from sidebar_twice_at_once [of w b]
  obtain w1 w2 es where w1: "dispatch w ?A (JBoolean b) = Inr w1"
    and w2: "dispatch w1 ?A (JBoolean b) = Inr w2"
    and r: "actions (heap w1) (this_state w1) ?A (JBoolean b)
              = Inr ((heap w1, this_state w1), [])"
      "w2 = w1\<lparr>called := called w1 @ es\<rparr>"
      "\<forall>e \<in> set es. \<exists>l. e = Call l (JNumber NaN)"
      "no_NaN_subscribed w \<longrightarrow> es = []"
    by blast
  from dispatch_with_Returned [OF assms w1]
  have d1: "dispatch_with react w ?A (JBoolean b) = Returned w1" and q1: "quiet react w1"
    by simp_all
  from dispatch_with_Returned [OF q1 w2]
  have d2: "dispatch_with react w1 ?A (JBoolean b) = Returned w2" by simp
  from d1 d2 r show ?thesis by blast
qed

theorem toggle_sidebar_twice_witness:
  "quiet at_once subscribed_store
   \<and> no_NaN_subscribed subscribed_store
   \<and> (\<exists>w1. dispatch_with at_once subscribed_store (Action_value TOGGLE_SIDEBAR)
              (JBoolean True) = Returned w1
          \<and> actions (heap w1) (this_state w1) (Action_value TOGGLE_SIDEBAR) (JBoolean True)
               = Inr ((heap w1, this_state w1), [])
          \<and> dispatch_with at_once w1 (Action_value TOGGLE_SIDEBAR) (JBoolean True)
               = Returned w1)"
  using toggle_sidebar_twice [OF quiet_at_once, of subscribed_store True]
        no_NaN_subscribed_store quiet_at_once [of subscribed_store]
  by auto

text \<open>
  The condition on the listeners is needed. On a new service whose listener of
  \<^verbatim>\<open>'sidebarstate'\<close> closes the sidebar when it is told that it opened, the first
  \<^verbatim>\<open>dispatch(TOGGLE_SIDEBAR, true)\<close> returns with sidebar-state \<^verbatim>\<open>false\<close>, and the
  second one builds new snapshots and calls the listener again, with no \<^verbatim>\<open>NaN\<close> in
  the state.
\<close>

lemma closing_listener_first:
  "dispatch_with (dispatching closes_sidebar (Suc (Suc n))) sidebar_watched
     (Action_value TOGGLE_SIDEBAR) (JBoolean True) =
   Returned
    \<lparr>heap = [getDefaultState,
             getDefaultState(PAUSED_STATE \<mapsto> JBoolean True, SIDEBAR_STATE \<mapsto> JBoolean True),
             getDefaultState(PAUSED_STATE \<mapsto> JBoolean False, SIDEBAR_STATE \<mapsto> JBoolean False)],
     this_listeners = [(SIDEBAR_STATE, [5])], this_state = 2, logged = [],
     called = [Call 5 (JBoolean True), Call 5 (JBoolean False)]\<rparr>"
  unfolding sidebar_watched_eq
  by (simp add: run_dispatch_with actions_TOGGLE_SIDEBAR closes_sidebar_def)

lemma closing_listener_second:
  "dispatch_with (dispatching closes_sidebar (Suc (Suc n)))
    \<lparr>heap = [getDefaultState,
             getDefaultState(PAUSED_STATE \<mapsto> JBoolean True, SIDEBAR_STATE \<mapsto> JBoolean True),
             getDefaultState(PAUSED_STATE \<mapsto> JBoolean False, SIDEBAR_STATE \<mapsto> JBoolean False)],
     this_listeners = [(SIDEBAR_STATE, [5])], this_state = 2, logged = [],
     called = [Call 5 (JBoolean True), Call 5 (JBoolean False)]\<rparr>
     (Action_value TOGGLE_SIDEBAR) (JBoolean True) =
   Returned
    \<lparr>heap = [getDefaultState,
             getDefaultState(PAUSED_STATE \<mapsto> JBoolean True, SIDEBAR_STATE \<mapsto> JBoolean True),
             getDefaultState(PAUSED_STATE \<mapsto> JBoolean False, SIDEBAR_STATE \<mapsto> JBoolean False),
             getDefaultState(PAUSED_STATE \<mapsto> JBoolean True, SIDEBAR_STATE \<mapsto> JBoolean True),
             getDefaultState(PAUSED_STATE \<mapsto> JBoolean False, SIDEBAR_STATE \<mapsto> JBoolean False)],
     this_listeners = [(SIDEBAR_STATE, [5])], this_state = 4, logged = [],
     called = [Call 5 (JBoolean True), Call 5 (JBoolean False),
               Call 5 (JBoolean True), Call 5 (JBoolean False)]\<rparr>"
  by (simp add: run_dispatch_with actions_TOGGLE_SIDEBAR closes_sidebar_def fun_upd_twist)

text \<open>
  The claim as worded fails on the store whose page index is \<^verbatim>\<open>NaN\<close>: after a first
  \<^verbatim>\<open>dispatch(TOGGLE_SIDEBAR, true)\<close>, the second one calls the listener of the page
  index once more.
\<close>

theorem toggle_sidebar_twice_counterexample:
  "dispatch (run store_NaN [Dispatch (Action_value TOGGLE_SIDEBAR) (JBoolean True)])
     (Action_value TOGGLE_SIDEBAR) (JBoolean True)
   = Inr ((run store_NaN [Dispatch (Action_value TOGGLE_SIDEBAR) (JBoolean True)])
            \<lparr>called := [Call 7 (JNumber NaN), Call 7 (JNumber NaN), Call 7 (JNumber NaN)]\<rparr>)
   \<and> called (run store_NaN [Dispatch (Action_value TOGGLE_SIDEBAR) (JBoolean True)])
     = [Call 7 (JNumber NaN), Call 7 (JNumber NaN)]"
  unfolding store_NaN_eq run_def
  by (simp add: dispatch_alt actions_TOGGLE_SIDEBAR the_state_def deref_def get_prop_def
        strict_equals_def Object_keys_def fired_def Observable_fire_def getDefaultState_def)


section \<open>Unknown actions\<close>






section \<open>Exceptions\<close>

lemma get_member_throws:
  "get_member h d name = Inl e \<longleftrightarrow> e = TypeError \<and> (d = JUndefined \<or> d = JNull)"
  by (cases d; cases e) auto

lemma actions_total:
  assumes "\<not> (a = Action_value CHANGE_PAGE \<and> (d = JUndefined \<or> d = JNull))"
  shows "\<exists>r msgs. actions h s a d = Inr (r, msgs)"
proof (cases "switch_action a")
  case None
  then show ?thesis by (simp add: actions_unknown)
next
  case (Some act)
  then have a: "a = Action_value act" by (rule switch_action_Some)
  show ?thesis
  proof (cases "act = CHANGE_PAGE")
    case True
    with a assms have "\<forall>name e. get_member h d name \<noteq> Inl e"
      by (simp add: get_member_throws)
    with a True show ?thesis
      by (auto simp: actions_CHANGE_PAGE split: sum.splits)
  next
    case False
    with a show ?thesis
      by (cases act) (simp_all add: actions_enum)
  qed
qed

lemma subscribe_total: "\<exists>w'. subscribe w k l c = Inr w'"
  by (auto simp: subscribe_def Let_def get_def update_conv' split: option.splits)

lemma dispatch_total:
  assumes "\<not> (a = Action_value CHANGE_PAGE \<and> (d = JUndefined \<or> d = JNull))"
  shows "\<exists>w'. dispatch w a d = Inr w'"
  using actions_total [OF assms, of "heap w" "this_state w"] by (auto simp: dispatch_alt)

text \<open>
  C5, as amended. Let payload objects be plain (data properties only), and let the
  listener given to \<^verbatim>\<open>subscribe\<close> and every subscribed listener return at once,
  without throwing and without calling back into the store. Then \<^verbatim>\<open>get\<close> and
  \<^verbatim>\<open>subscribe\<close> return for every input, and \<^verbatim>\<open>dispatch\<close> returns for every action
  and payload but one kind: \<^verbatim>\<open>dispatch(Action.CHANGE_PAGE, data)\<close> with \<^verbatim>\<open>data\<close>
  \<^verbatim>\<open>null\<close> or \<^verbatim>\<open>undefined\<close> throws a TypeError, from reading \<^verbatim>\<open>data.id\<close>, and
  leaves the service as it was.
\<close>

theorem operations_return:
  assumes "quiet react w" and "returns_at_once react l"
  shows "(\<exists>r. get w k = Inr r)
   \<and> (\<exists>w'. subscribe_with react w k l callToInitialize = Returned w')
   \<and> (if a = Action_value CHANGE_PAGE \<and> (d = JUndefined \<or> d = JNull)
      then dispatch_with react w a d = Threw TypeError w
      else \<exists>w'. dispatch_with react w a d = Returned w')"
proof -
  have g: "\<exists>r. get w k = Inr r" by (simp add: get_def)
  from subscribe_with_at_once [OF assms(2), of w k callToInitialize]
  have s: "\<exists>w'. subscribe_with react w k l callToInitialize = Returned w'" by blast
  have t: "dispatch_with react w a d = Threw TypeError w"
    if "a = Action_value CHANGE_PAGE \<and> (d = JUndefined \<or> d = JNull)"
    using that by (auto simp: dispatch_with_def actions_CHANGE_PAGE)
  have r: "\<exists>w'. dispatch_with react w a d = Returned w'"
    if "\<not> (a = Action_value CHANGE_PAGE \<and> (d = JUndefined \<or> d = JNull))"
  proof -
    from dispatch_total [OF that] obtain w' where "dispatch w a d = Inr w'" by blast
    from dispatch_with_Returned [OF assms(1) this] show ?thesis by blast
  qed
  from g s t r show ?thesis by simp
qed

lemma at_once_returns: "returns_at_once at_once l"
  by (simp add: returns_at_once_def at_once_def)

theorem operations_return_witness:
  "quiet at_once subscribed_store
   \<and> returns_at_once at_once 4
   \<and> (\<exists>r. get subscribed_store UI_STATE = Inr r)
   \<and> (\<exists>w'. subscribe_with at_once subscribed_store UI_STATE 4 True = Returned w')
   \<and> (\<exists>w'. dispatch_with at_once subscribed_store (Action_value CHANGE_PAGE)
              (JNumber (Finite 3)) = Returned w')
   \<and> dispatch_with at_once subscribed_store (Action_value CHANGE_PAGE) JUndefined
       = Threw TypeError subscribed_store"
  using operations_return [where react = at_once and w = subscribed_store and l = 4
          and k = UI_STATE and callToInitialize = True
          and a = "Action_value CHANGE_PAGE" and d = "JNumber (Finite 3)",
          OF quiet_at_once at_once_returns]
        operations_return [where react = at_once and w = subscribed_store and l = 4
          and k = UI_STATE and callToInitialize = True
          and a = "Action_value CHANGE_PAGE" and d = JUndefined,
          OF quiet_at_once at_once_returns]
        quiet_at_once [of subscribed_store] at_once_returns [of 4]
  by simp

text \<open>
  The claim as worded fails for a page change with a \<^verbatim>\<open>null\<close> payload, on a new
  service.
\<close>

theorem operations_return_counterexample:
  "dispatch (constructor [] NOT_EMBEDDED) (Action_value CHANGE_PAGE) JNull = Inl TypeError"
  by (simp add: dispatch_alt actions_CHANGE_PAGE)


section \<open>What the reducer writes\<close>

lemma deref_alloc_new: "deref (h @ [obj]) (length h) = obj"
  by (simp add: deref_def)

lemma Action_value_inj: "Action_value a = Action_value b \<Longrightarrow> a = b"
  by (metis option.inject switch_action_value)

lemma actions_frame_case:
  "case actions h s (Action_value act) d of
     Inl e \<Rightarrow> True
   | Inr ((h', s'), msgs) \<Rightarrow>
       (h' = h \<and> s' = s) \<or>
         (msgs = [] \<and> (\<exists>obj. h' = h @ [obj]) \<and> s' = length h
            \<and> dom (deref h s) \<subseteq> dom (deref h' s')
            \<and> (\<forall>k. k \<notin> fields_of act \<longrightarrow> deref h' s' k = deref h s k)
            \<and> (is_toggle act \<longrightarrow>
                 (\<forall>k \<in> fields_of act. k = UI_STATE \<or>
                    deref h' s' k = Some (JBoolean (if act = TOGGLE_UI
                                            then strict_equals d (UIType_value DESKTOP)
                                            else to_boolean d)))))"
  by (cases act)
     (simp_all add: actions_enum assign_state_eq deref_alloc_new subset_insertI2
         split: sum.splits)

lemma actions_frame_enum:
  assumes "actions h s (Action_value act) d = Inr ((h', s'), msgs)"
  shows "(h' = h \<and> s' = s) \<or>
         (msgs = [] \<and> (\<exists>obj. h' = h @ [obj]) \<and> s' = length h
            \<and> dom (deref h s) \<subseteq> dom (deref h' s')
            \<and> (\<forall>k. k \<notin> fields_of act \<longrightarrow> deref h' s' k = deref h s k)
            \<and> (is_toggle act \<longrightarrow>
                 (\<forall>k \<in> fields_of act. k = UI_STATE \<or>
                    deref h' s' k = Some (JBoolean (if act = TOGGLE_UI
                                            then strict_equals d (UIType_value DESKTOP)
                                            else to_boolean d)))))"
  using actions_frame_case [of h s act d] assms by simp

text \<open>For any action string: the state given back, or a new object at the next reference.\<close>

lemma actions_result:
  assumes "actions h s a d = Inr ((h', s'), msgs)"
  shows "(h' = h \<and> s' = s) \<or> ((\<exists>obj. h' = h @ [obj]) \<and> s' = length h)"
proof (cases "switch_action a")
  case None
  with assms show ?thesis by (simp add: actions_unknown)
next
  case (Some act)
  then have "a = Action_value act" by (rule switch_action_Some)
  with actions_frame_enum [of h s act d h' s' msgs] assms show ?thesis by blast
qed

lemma actions_dom:
  assumes "actions h s a d = Inr ((h', s'), msgs)"
  shows "dom (deref h s) \<subseteq> dom (deref h' s')"
proof (cases "switch_action a")
  case None
  with assms show ?thesis by (simp add: actions_unknown)
next
  case (Some act)
  then have "a = Action_value act" by (rule switch_action_Some)
  with actions_frame_enum [of h s act d h' s' msgs] assms show ?thesis by blast
qed

lemma boolean_keys_other:
  "k \<in> set boolean_keys \<Longrightarrow>
   k \<noteq> UI_STATE \<and> k \<noteq> CONSENT_ID \<and> k \<noteq> CURRENT_PAGE_ID \<and> k \<noteq> CURRENT_PAGE_INDEX"
  by (auto simp: boolean_keys_def)

lemma actions_booleans:
  assumes r: "actions h s a d = Inr ((h', s'), msgs)"
    and b: "booleans_hold (deref h s)"
  shows "booleans_hold (deref h' s')"
proof (cases "switch_action a")
  case None
  with r b show ?thesis by (simp add: actions_unknown)
next
  case (Some act)
  then have a: "a = Action_value act" by (rule switch_action_Some)
  note f = actions_frame_enum [OF r [unfolded a]]
  show ?thesis
  proof (cases "h' = h \<and> s' = s")
    case True
    with b show ?thesis by simp
  next
    case False
    with f have same: "\<And>k. k \<notin> fields_of act \<Longrightarrow> deref h' s' k = deref h s k"
      and new: "is_toggle act \<Longrightarrow> k \<in> fields_of act \<Longrightarrow> k \<noteq> UI_STATE \<Longrightarrow>
                  \<exists>v. deref h' s' k = Some (JBoolean v)" for k
      by auto
    show ?thesis
      unfolding booleans_hold_def
    proof
      fix k assume k: "k \<in> set boolean_keys"
      show "is_boolean (get_prop (deref h' s') k)"
      proof (cases "k \<in> fields_of act")
        case False
        from same [OF this] b k show ?thesis
          by (simp add: booleans_hold_def get_prop_def)
      next
        case True
        with boolean_keys_other [OF k] have t: "is_toggle act"
          by (cases act) auto
        from new [OF t True] boolean_keys_other [OF k] show ?thesis
          by (auto simp: get_prop_def)
      qed
    qed
  qed
qed

lemma get_frame: "get w k = Inr (w', v) \<Longrightarrow> heap w' = heap w \<and> this_state w' = this_state w"
  by (auto simp: get_def dev_error_def split: if_splits)

lemma subscribe_frame:
  "subscribe w k l c = Inr w' \<Longrightarrow> heap w' = heap w \<and> this_state w' = this_state w"
  by (auto simp: subscribe_def Let_def get_def dev_error_def call_listener_def
           split: if_splits option.splits)

lemma step_invariant:
  assumes "this_state w < length (heap w)"
  shows "this_state (step w c) < length (heap (step w c))
       \<and> dom (the_state w) \<subseteq> dom (the_state (step w c))
       \<and> (booleans_hold (the_state w) \<longrightarrow> booleans_hold (the_state (step w c)))"
proof (cases c)
  case (Get key)
  then show ?thesis
    using assms by (auto simp: the_state_def dest!: get_frame split: sum.splits)
next
  case (Subscribe key l c)
  then show ?thesis
    using assms by (auto simp: the_state_def dest!: subscribe_frame split: sum.splits)
next
  case (Dispatch a d)
  show ?thesis
  proof (cases "actions (heap w) (this_state w) a d")
    case (Inl e)
    with Dispatch assms show ?thesis by (simp add: dispatch_alt)
  next
    case (Inr r)
    obtain h' s' msgs where r: "r = ((h', s'), msgs)" by (cases r) auto
    from Inr r have st: "the_state (step w c) = deref h' s'"
      "heap (step w c) = h'" "this_state (step w c) = s'"
      using Dispatch by (simp_all add: dispatch_alt the_state_def)
    from actions_result [OF Inr [unfolded r]] assms
    have "s' < length h'" by auto
    with st actions_dom [OF Inr [unfolded r]] actions_booleans [OF Inr [unfolded r]]
    show ?thesis by (simp add: the_state_def)
  qed
next
  case (Allocate obj)
  then show ?thesis
    using assms by (simp add: the_state_def alloc_def deref_append)
qed

lemma run_invariant:
  assumes "this_state w < length (heap w)"
  shows "this_state (run w cmds) < length (heap (run w cmds))
       \<and> dom (the_state w) \<subseteq> dom (the_state (run w cmds))
       \<and> (booleans_hold (the_state w) \<longrightarrow> booleans_hold (the_state (run w cmds)))"
  using assms
proof (induction cmds arbitrary: w)
  case Nil
  then show ?case by (simp add: run_def)
next
  case (Cons c cmds)
  from step_invariant [OF Cons.prems, of c] Cons.IH [of "step w c"]
  show ?case by (auto simp: run_def)
qed

lemma constructor_allocated:
  "this_state (constructor h em) < length (heap (constructor h em))"
  by (simp add: constructor_eq)

lemma constructor_booleans: "booleans_hold (the_state (constructor h em))"
  by (cases em)
     (simp_all add: booleans_hold_def boolean_keys_def the_state_constructor get_prop_def
        getDefaultState_def map_add_def)

text \<open>The listeners object of a service never has two entries with the same key.\<close>

lemma subscribe_distinct:
  assumes "subscribe w k l c = Inr w'" and "distinct (map fst (this_listeners w))"
  shows "distinct (map fst (this_listeners w'))"
  using assms
  by (auto simp: subscribe_def Let_def get_def dev_error_def call_listener_def distinct_update
           split: if_splits option.splits)

lemma step_distinct:
  assumes "distinct (map fst (this_listeners w))"
  shows "distinct (map fst (this_listeners (step w c)))"
proof (cases c)
  case (Get key)
  with assms show ?thesis
    by (auto simp: get_def dev_error_def split: sum.splits if_splits)
next
  case (Subscribe key l b)
  with assms subscribe_distinct show ?thesis
    by (auto split: sum.splits)
next
  case (Dispatch a d)
  with assms show ?thesis
    by (auto simp: dispatch_alt split: sum.splits)
next
  case (Allocate obj)
  with assms show ?thesis by simp
qed

lemma run_distinct:
  "distinct (Object_keys (this_listeners (run (constructor h em) cmds)))"
proof -
  have "distinct (map fst (this_listeners w)) \<Longrightarrow>
        distinct (map fst (this_listeners (run w cmds)))" for w
    by (induction cmds arbitrary: w) (simp_all add: run_def step_distinct)
  from this [of "constructor h em"] show ?thesis
    by (simp add: constructor_eq Object_keys_def)
qed


section \<open>Keys are never dropped\<close>

lemma actions_TOGGLE_MUTED_default:
  "actions [getDefaultState] 0 (Action_value TOGGLE_MUTED) (JBoolean False)
     = Inr (([getDefaultState, getDefaultState(MUTED_STATE \<mapsto> JBoolean False)], 1), [])"
  by (simp add: actions_enum assign_state_eq deref_def)

text \<open>
  C8. For every action and every payload, the snapshot that the reducer returns has every
  key of the snapshot it was given; and every key of the default snapshot is a key of the
  snapshot of a service after any sequence of operations on it, whatever the embed mode
  and the objects that existed before.
\<close>

theorem keys_never_dropped:
  "(actions h s a d = Inr ((h', s'), msgs) \<longrightarrow> dom (deref h s) \<subseteq> dom (deref h' s'))
   \<and> dom getDefaultState \<subseteq> dom (the_state (run (constructor h0 em) cmds))"
proof -
  have "dom getDefaultState \<subseteq> dom (the_state (constructor h0 em))"
    by (simp add: the_state_constructor)
  with run_invariant [OF constructor_allocated, of h0 em cmds] actions_dom [of h s a d h' s' msgs]
  show ?thesis by blast
qed

theorem keys_never_dropped_witness:
  "actions [getDefaultState] 0 (Action_value TOGGLE_MUTED) (JBoolean False)
     = Inr (([getDefaultState, getDefaultState(MUTED_STATE \<mapsto> JBoolean False)], 1), [])
   \<and> dom (deref [getDefaultState] 0)
       \<subseteq> dom (deref [getDefaultState, getDefaultState(MUTED_STATE \<mapsto> JBoolean False)] 1)
   \<and> dom getDefaultState
       \<subseteq> dom (the_state (run (constructor [] NAME_TBD)
                            [Dispatch (Action_value TOGGLE_MUTED) (JBoolean False)]))"
proof -
  note a = actions_TOGGLE_MUTED_default
  from keys_never_dropped [of "[getDefaultState]" 0 "Action_value TOGGLE_MUTED"
         "JBoolean False" "[getDefaultState, getDefaultState(MUTED_STATE \<mapsto> JBoolean False)]"
         1 "[]" "[]" NAME_TBD "[Dispatch (Action_value TOGGLE_MUTED) (JBoolean False)]"] a
  show ?thesis by simp
qed


section \<open>The frame of the reducer\<close>

lemma well_typed_returns:
  assumes "well_typed h act d"
  shows "\<not> (Action_value act = Action_value CHANGE_PAGE \<and> (d = JUndefined \<or> d = JNull))"
  using assms by (cases act) (auto dest: Action_value_inj)

text \<open>
  C9. For every member of the \<^verbatim>\<open>Action\<close> enum with a payload of the type the action
  expects, on a state that exists, the reducer returns; it changes no object that existed
  before the call, the state it was given included; and it returns either the reference
  it was given, with the heap as it was, or the reference of a new object, in which every
  key outside the fields that the action's rule lists has the value it had.
\<close>

theorem reducer_frame:
  assumes "s < length h" and "well_typed h act d"
  shows "\<exists>h' s' msgs.
      actions h s (Action_value act) d = Inr ((h', s'), msgs)
    \<and> take (length h) h' = h
    \<and> deref h' s = deref h s
    \<and> ((h' = h \<and> s' = s) \<or>
        (s' = length h \<and> s' \<noteq> s \<and> length h' = Suc (length h)
         \<and> (\<forall>k. k \<notin> fields_of act \<longrightarrow> deref h' s' k = deref h s k)))"
proof -
  from actions_total [OF well_typed_returns [OF assms(2)], of h s]
  obtain h' s' msgs where r: "actions h s (Action_value act) d = Inr ((h', s'), msgs)"
    by auto
  from actions_frame_enum [OF r] assms(1)
  have "take (length h) h' = h \<and> deref h' s = deref h s
      \<and> ((h' = h \<and> s' = s) \<or>
        (s' = length h \<and> s' \<noteq> s \<and> length h' = Suc (length h)
         \<and> (\<forall>k. k \<notin> fields_of act \<longrightarrow> deref h' s' k = deref h s k)))"
    by (auto simp: deref_append)
  with r show ?thesis by blast
qed

theorem reducer_frame_witness:
  "(0::nat) < length [getDefaultState]
   \<and> well_typed [getDefaultState] TOGGLE_MUTED (JBoolean False)
   \<and> (\<exists>h' s' msgs.
        actions [getDefaultState] 0 (Action_value TOGGLE_MUTED) (JBoolean False)
          = Inr ((h', s'), msgs)
      \<and> take 1 h' = [getDefaultState]
      \<and> deref h' 0 = getDefaultState
      \<and> s' = 1 \<and> length h' = 2
      \<and> (\<forall>k. k \<noteq> MUTED_STATE \<longrightarrow> deref h' s' k = getDefaultState k))"
proof -
  have a: "(0::nat) < length [getDefaultState]"
    and b: "well_typed [getDefaultState] TOGGLE_MUTED (JBoolean False)"
    by simp_all
  from reducer_frame [OF a b] show ?thesis
    by (auto simp: actions_TOGGLE_MUTED_default deref_def)
qed


section \<open>Booleans stay booleans\<close>

lemma paywall_heap_facts:
  "(0::nat) < length [getDefaultState(ACCESS_STATE \<mapsto> JBoolean True)]
   \<and> \<not> is_boolean (JNumber (Finite 1))
   \<and> to_boolean (JNumber (Finite 1))
   \<and> get_prop (deref [getDefaultState(ACCESS_STATE \<mapsto> JBoolean True)] 0) ACCESS_STATE
       = JBoolean True
   \<and> is_boolean (get_prop (deref [getDefaultState(ACCESS_STATE \<mapsto> JBoolean True)] 0)
                    SIDEBAR_STATE)"
  by (simp add: deref_def get_prop_def getDefaultState_def)

lemma toggles_case:
  "is_toggle act \<Longrightarrow>
   (case actions h s (Action_value act) d of
      Inl e \<Rightarrow> False
    | Inr ((h', s'), msgs) \<Rightarrow>
        msgs = [] \<and>
        (if is_no_op (deref h s) act d then h' = h \<and> s' = s
         else s' = length h \<and> length h' = Suc (length h)
            \<and> (\<forall>k \<in> fields_of act. k = UI_STATE \<or>
                  deref h' s' k = Some (JBoolean (if act = TOGGLE_UI
                                          then strict_equals d (UIType_value DESKTOP)
                                          else to_boolean d)))))"
  by (cases act) (simp_all add: actions_enum assign_state_eq deref_alloc_new)

text \<open>
  C10. For a payload \<open>d\<close> of any type, every \<^verbatim>\<open>TOGGLE_*\<close> action returns. It returns
  the state it was given exactly in the cases in which its rule says no-op
  (\<^verbatim>\<open>TOGGLE_ACCESS\<close> and \<^verbatim>\<open>TOGGLE_SIDEBAR\<close> when the key \<^verbatim>\<open>===\<close> the payload,
  \<^verbatim>\<open>TOGGLE_BOOKEND\<close> when the bookend cannot be shown); in every other case it builds a
  new snapshot, in which each boolean-typed key that the rule lists holds a boolean:
  \<^verbatim>\<open>!!d\<close> for the toggles, and \<^verbatim>\<open>d === UIType.DESKTOP\<close> in desktop-state for
  \<^verbatim>\<open>TOGGLE_UI\<close>. Hence every boolean-typed key holds a boolean in the snapshot of a
  service after any sequence of operations. The guards of \<^verbatim>\<open>TOGGLE_ACCESS\<close> and
  \<^verbatim>\<open>TOGGLE_SIDEBAR\<close> compare the payload as it is: with a payload that is not a
  boolean, on a state whose guarded key holds a boolean, the guard does not hold and the
  reducer returns a new snapshot, also when the key already holds \<^verbatim>\<open>!!d\<close>.
\<close>

theorem toggles_store_booleans:
  "(is_toggle act \<longrightarrow>
      (\<exists>h' s'. actions h s (Action_value act) d = Inr ((h', s'), [])
         \<and> (if is_no_op (deref h s) act d then h' = h \<and> s' = s
            else s' = length h \<and> length h' = Suc (length h)
               \<and> (\<forall>k \<in> fields_of act \<inter> set boolean_keys.
                     deref h' s' k = Some (JBoolean (if act = TOGGLE_UI
                                                    then strict_equals d (UIType_value DESKTOP)
                                                    else to_boolean d))))))
   \<and> booleans_hold (the_state (run (constructor h0 em) cmds))
   \<and> (s < length h \<and> \<not> is_boolean d \<and> is_boolean (get_prop (deref h s) ACCESS_STATE) \<longrightarrow>
        (\<exists>h' s'. actions h s (Action_value TOGGLE_ACCESS) d = Inr ((h', s'), [])
                  \<and> s' \<noteq> s))
   \<and> (s < length h \<and> \<not> is_boolean d \<and> is_boolean (get_prop (deref h s) SIDEBAR_STATE) \<longrightarrow>
        (\<exists>h' s'. actions h s (Action_value TOGGLE_SIDEBAR) d = Inr ((h', s'), [])
                  \<and> s' \<noteq> s))"
proof (intro conjI impI)
  assume t: "is_toggle act"
  let ?v = "JBoolean (if act = TOGGLE_UI then strict_equals d (UIType_value DESKTOP)
                      else to_boolean d)"
  from toggles_case [OF t, of h s d]
  obtain h' s' where r: "actions h s (Action_value act) d = Inr ((h', s'), [])"
    and c: "if is_no_op (deref h s) act d then h' = h \<and> s' = s
            else s' = length h \<and> length h' = Suc (length h)
               \<and> (\<forall>k \<in> fields_of act. k = UI_STATE \<or> deref h' s' k = Some ?v)"
    by (cases "actions h s (Action_value act) d") auto
  have "if is_no_op (deref h s) act d then h' = h \<and> s' = s
        else s' = length h \<and> length h' = Suc (length h)
           \<and> (\<forall>k \<in> fields_of act \<inter> set boolean_keys. deref h' s' k = Some ?v)"
  proof (cases "is_no_op (deref h s) act d")
    case True
    show ?thesis
      unfolding if_P [OF True] using c [unfolded if_P [OF True]] .
  next
    case False
    note c' = c [unfolded if_not_P [OF False]]
    have "deref h' s' k = Some ?v" if "k \<in> fields_of act \<inter> set boolean_keys" for k
    proof -
      from that have "k \<in> fields_of act" "k \<noteq> UI_STATE"
        using boolean_keys_other [of k] by simp_all
      with c' show ?thesis by blast
    qed
    with c' have "s' = length h \<and> length h' = Suc (length h)
           \<and> (\<forall>k \<in> fields_of act \<inter> set boolean_keys. deref h' s' k = Some ?v)"
      by blast
    then show ?thesis
      unfolding if_not_P [OF False] .
  qed
  with r show "\<exists>h' s'. actions h s (Action_value act) d = Inr ((h', s'), [])
         \<and> (if is_no_op (deref h s) act d then h' = h \<and> s' = s
            else s' = length h \<and> length h' = Suc (length h)
               \<and> (\<forall>k \<in> fields_of act \<inter> set boolean_keys. deref h' s' k = Some ?v))"
    by blast
next
  show "booleans_hold (the_state (run (constructor h0 em) cmds))"
    using run_invariant [OF constructor_allocated, of h0 em cmds] constructor_booleans
    by simp
next
  assume a: "s < length h \<and> \<not> is_boolean d \<and> is_boolean (get_prop (deref h s) ACCESS_STATE)"
  then have "\<not> strict_equals (get_prop (deref h s) ACCESS_STATE) d"
    by (cases "get_prop (deref h s) ACCESS_STATE"; cases d) (simp_all add: strict_equals_def)
  with a show "\<exists>h' s'. actions h s (Action_value TOGGLE_ACCESS) d = Inr ((h', s'), [])
                  \<and> s' \<noteq> s"
    by (simp add: actions_TOGGLE_ACCESS)
next
  assume a: "s < length h \<and> \<not> is_boolean d \<and> is_boolean (get_prop (deref h s) SIDEBAR_STATE)"
  then have "\<not> strict_equals (get_prop (deref h s) SIDEBAR_STATE) d"
    by (cases "get_prop (deref h s) SIDEBAR_STATE"; cases d) (simp_all add: strict_equals_def)
  with a show "\<exists>h' s'. actions h s (Action_value TOGGLE_SIDEBAR) d = Inr ((h', s'), [])
                  \<and> s' \<noteq> s"
    by (simp add: actions_TOGGLE_SIDEBAR)
qed

theorem toggles_store_booleans_witness:
  "is_toggle TOGGLE_ACCESS
   \<and> ((0::nat) < length [getDefaultState(ACCESS_STATE \<mapsto> JBoolean True)]
   \<and> \<not> is_boolean (JNumber (Finite 1))
   \<and> to_boolean (JNumber (Finite 1))
   \<and> get_prop (deref [getDefaultState(ACCESS_STATE \<mapsto> JBoolean True)] 0) ACCESS_STATE
       = JBoolean True
   \<and> is_boolean (get_prop (deref [getDefaultState(ACCESS_STATE \<mapsto> JBoolean True)] 0)
                    SIDEBAR_STATE))
   \<and> (\<exists>h' s'. actions [getDefaultState(ACCESS_STATE \<mapsto> JBoolean True)] 0
                 (Action_value TOGGLE_ACCESS) (JNumber (Finite 1)) = Inr ((h', s'), [])
         \<and> (if is_no_op (deref [getDefaultState(ACCESS_STATE \<mapsto> JBoolean True)] 0)
                  TOGGLE_ACCESS (JNumber (Finite 1))
            then h' = [getDefaultState(ACCESS_STATE \<mapsto> JBoolean True)] \<and> s' = 0
            else s' = length [getDefaultState(ACCESS_STATE \<mapsto> JBoolean True)]
               \<and> length h' = Suc (length [getDefaultState(ACCESS_STATE \<mapsto> JBoolean True)])
               \<and> (\<forall>k \<in> fields_of TOGGLE_ACCESS \<inter> set boolean_keys.
                     deref h' s' k = Some (JBoolean (if TOGGLE_ACCESS = TOGGLE_UI
                        then strict_equals (JNumber (Finite 1)) (UIType_value DESKTOP)
                        else to_boolean (JNumber (Finite 1)))))))
   \<and> (\<exists>h' s'. actions [getDefaultState(ACCESS_STATE \<mapsto> JBoolean True)] 0
                 (Action_value TOGGLE_ACCESS) (JNumber (Finite 1)) = Inr ((h', s'), [])
              \<and> s' \<noteq> 0)
   \<and> (\<exists>h' s'. actions [getDefaultState(ACCESS_STATE \<mapsto> JBoolean True)] 0
                 (Action_value TOGGLE_SIDEBAR) (JNumber (Finite 1)) = Inr ((h', s'), [])
              \<and> s' \<noteq> 0)
   \<and> booleans_hold (the_state (run (constructor [] NO_SHARING)
        [Dispatch (Action_value TOGGLE_ACCESS) (JNumber (Finite 1)),
         Dispatch (Action_value TOGGLE_UI) (JString ''desktop'')]))"
proof -
  let ?h = "[getDefaultState(ACCESS_STATE \<mapsto> JBoolean True)]"
  let ?d = "JNumber (Finite 1)"
  note T = toggles_store_booleans [of TOGGLE_ACCESS ?h 0 ?d "[]" NO_SHARING
          "[Dispatch (Action_value TOGGLE_ACCESS) (JNumber (Finite 1)),
            Dispatch (Action_value TOGGLE_UI) (JString ''desktop'')]"]
  note f = paywall_heap_facts
  have pa: "0 < length ?h \<and> \<not> is_boolean ?d \<and> is_boolean (get_prop (deref ?h 0) ACCESS_STATE)"
    using f by simp
  have ps: "0 < length ?h \<and> \<not> is_boolean ?d \<and> is_boolean (get_prop (deref ?h 0) SIDEBAR_STATE)"
    using f by simp
  have t: "is_toggle TOGGLE_ACCESS" by simp
  note a = T [THEN conjunct1, THEN mp, OF t]
  note b = T [THEN conjunct2, THEN conjunct1]
  note c = T [THEN conjunct2, THEN conjunct2, THEN conjunct1, THEN mp, OF pa]
  note d = T [THEN conjunct2, THEN conjunct2, THEN conjunct2, THEN mp, OF ps]
  show ?thesis
    by (rule conjI [OF t conjI [OF f conjI [OF a conjI [OF c conjI [OF d b]]]]])
qed


section \<open>Switching the UI type\<close>







section \<open>Who is notified\<close>

lemma notifications_mem:
  "Call l v \<in> set (notifications D registry old new) \<longleftrightarrow>
     (\<exists>key handlers. (key, handlers) \<in> set registry \<and> l \<in> set handlers
        \<and> D (get_prop old key) (get_prop new key) \<and> v = get_prop new key)"
  by (auto simp: notifications_def)

lemma notifications_cong:
  assumes "\<And>key handlers. (key, handlers) \<in> set registry \<Longrightarrow>
             D (get_prop old key) (get_prop new key) = D' (get_prop old key) (get_prop new key)"
  shows "notifications D registry old new = notifications D' registry old new"
proof -
  have "filter (\<lambda>(key, handlers). D (get_prop old key) (get_prop new key)) registry
      = filter (\<lambda>(key, handlers). D' (get_prop old key) (get_prop new key)) registry"
    by (rule filter_cong) (use assms in auto)
  then show ?thesis by (simp add: notifications_def)
qed

lemma notifications_without:
  assumes "\<not> D (get_prop old k) (get_prop new k)"
  shows "notifications D registry old new
       = notifications D (filter (\<lambda>(key, handlers). key \<noteq> k) registry) old new"
proof -
  have "filter (\<lambda>(key, handlers). D (get_prop old key) (get_prop new key)) registry
      = filter (\<lambda>(key, handlers). D (get_prop old key) (get_prop new key))
          (filter (\<lambda>(key, handlers). key \<noteq> k) registry)"
    unfolding filter_filter
    by (rule filter_cong) (use assms in auto)
  then show ?thesis by (simp add: notifications_def)
qed

lemma notifies_at_once:
  assumes "distinct (Object_keys (this_listeners w))"
    and "dispatch w a d = Inr w'"
  shows "called w' = called w @ notifications (\<lambda>x y. \<not> strict_equals x y)
                                  (this_listeners w) (the_state w) (the_state w')
       \<and> (\<forall>l v. Call l v \<in> set (notifications (\<lambda>x y. \<not> strict_equals x y)
                                  (this_listeners w) (the_state w) (the_state w'))
              \<longleftrightarrow> (\<exists>key handlers. (key, handlers) \<in> set (this_listeners w)
                     \<and> l \<in> set handlers
                     \<and> \<not> strict_equals (get_prop (the_state w) key)
                                         (get_prop (the_state w') key)
                     \<and> v = get_prop (the_state w') key))
       \<and> (no_NaN_subscribed w \<longrightarrow>
            called w' = called w @ notifications (\<lambda>x y. x \<noteq> y)
                                     (this_listeners w) (the_state w) (the_state w'))
       \<and> (get_prop (the_state w) k \<noteq> JNumber NaN
          \<and> get_prop (the_state w') k = get_prop (the_state w) k \<longrightarrow>
            called w' = called w @ notifications (\<lambda>x y. \<not> strict_equals x y)
                                     (filter (\<lambda>(key, handlers). key \<noteq> k) (this_listeners w))
                                     (the_state w) (the_state w'))
       \<and> (w = run (constructor h0 em) cmds
          \<and> get_prop (the_state w') MUTED_STATE = get_prop (the_state w) MUTED_STATE \<longrightarrow>
            called w' = called w @ notifications (\<lambda>x y. \<not> strict_equals x y)
                                     (filter (\<lambda>(key, handlers). key \<noteq> MUTED_STATE)
                                        (this_listeners w))
                                     (the_state w) (the_state w'))"
proof -
  let ?D = "\<lambda>x y. \<not> strict_equals x y"
  let ?old = "the_state w" and ?new = "the_state w'" and ?reg = "this_listeners w"
  from assms(1) have d: "distinct (map fst ?reg)" by (simp add: Object_keys_def)
  from dispatch_called [OF assms(2)] fired_distinct [OF d]
  have c: "called w' = called w @ notifications ?D ?reg ?old ?new" by simp
  have m: "\<forall>l v. Call l v \<in> set (notifications ?D ?reg ?old ?new)
              \<longleftrightarrow> (\<exists>key handlers. (key, handlers) \<in> set ?reg \<and> l \<in> set handlers
                     \<and> \<not> strict_equals (get_prop ?old key) (get_prop ?new key)
                     \<and> v = get_prop ?new key)"
    by (simp add: notifications_mem)
  have n: "no_NaN_subscribed w \<longrightarrow>
            called w' = called w @ notifications (\<lambda>x y. x \<noteq> y) ?reg ?old ?new"
  proof
    assume nn: "no_NaN_subscribed w"
    have "notifications ?D ?reg ?old ?new = notifications (\<lambda>x y. x \<noteq> y) ?reg ?old ?new"
    proof (rule notifications_cong)
      fix key handlers assume "(key, handlers) \<in> set ?reg"
      then have "key \<in> set (Object_keys ?reg)" by (force simp: Object_keys_def)
      with nn have "get_prop ?old key \<noteq> JNumber NaN" by (simp add: no_NaN_subscribed_def)
      then show "(\<not> strict_equals (get_prop ?old key) (get_prop ?new key))
                 = (get_prop ?old key \<noteq> get_prop ?new key)"
        by (simp add: strict_equals_def)
    qed
    with c show "called w' = called w @ notifications (\<lambda>x y. x \<noteq> y) ?reg ?old ?new"
      by simp
  qed
  have s: "get_prop ?old k \<noteq> JNumber NaN \<and> get_prop ?new k = get_prop ?old k \<longrightarrow>
            called w' = called w @ notifications ?D
                                     (filter (\<lambda>(key, handlers). key \<noteq> k) ?reg) ?old ?new"
    for k
  proof
    assume "get_prop ?old k \<noteq> JNumber NaN \<and> get_prop ?new k = get_prop ?old k"
    then have "\<not> ?D (get_prop ?old k) (get_prop ?new k)" by (simp add: strict_equals_def)
    from notifications_without [of ?D, OF this] c
    show "called w' = called w @ notifications ?D
                                     (filter (\<lambda>(key, handlers). key \<noteq> k) ?reg) ?old ?new"
      by simp
  qed
  have r: "w = run (constructor h0 em) cmds
          \<and> get_prop ?new MUTED_STATE = get_prop ?old MUTED_STATE \<longrightarrow>
            called w' = called w @ notifications ?D
                          (filter (\<lambda>(key, handlers). key \<noteq> MUTED_STATE) ?reg) ?old ?new"
  proof
    assume a: "w = run (constructor h0 em) cmds
          \<and> get_prop ?new MUTED_STATE = get_prop ?old MUTED_STATE"
    with run_invariant [OF constructor_allocated, of h0 em cmds] constructor_booleans
    have "booleans_hold ?old" by simp
    then have "is_boolean (get_prop ?old MUTED_STATE)"
      by (simp add: booleans_hold_def boolean_keys_def)
    then have "get_prop ?old MUTED_STATE \<noteq> JNumber NaN" by auto
    with a s [of MUTED_STATE]
    show "called w' = called w @ notifications ?D
                          (filter (\<lambda>(key, handlers). key \<noteq> MUTED_STATE) ?reg) ?old ?new"
      by simp
  qed
  show ?thesis by (rule conjI [OF c conjI [OF m conjI [OF n conjI [OF s r]]]])
qed

lemma subscribed_store_paused:
  "dispatch subscribed_store (Action_value TOGGLE_PAUSED) (JBoolean True) =
     Inr \<lparr>heap = [getDefaultState, getDefaultState(PAUSED_STATE \<mapsto> JBoolean True)],
          this_listeners = [(MUTED_STATE, [1, 3]), (PAUSED_STATE, [2])],
          this_state = 1, logged = [],
          called = [Call 2 (JBoolean False), Call 2 (JBoolean True)]\<rparr>"
  unfolding subscribed_store_eq
  by (simp add: dispatch_alt actions_TOGGLE_PAUSED the_state_def deref_def get_prop_def
        strict_equals_def Object_keys_def fired_def Observable_fire_def getDefaultState_def)

lemma subscribed_store_distinct: "distinct (Object_keys (this_listeners subscribed_store))"
  by (simp add: subscribed_store_eq Object_keys_def)

text \<open>
  C6, as amended. Let no two entries of the listeners object have the same key, as in a
  JavaScript object, and let every subscribed listener return at once, without throwing
  and without calling back into the store. After a dispatch that returns, the listeners
  called are exactly those subscribed to keys whose old and new values are not strictly
  equal (\<^verbatim>\<open>!==\<close>), each once for each subscription, with the new value, key by key in
  the order of the listeners object and in subscription order within a key. When no key
  with subscribers holds \<^verbatim>\<open>NaN\<close> before the dispatch, these are exactly the keys whose
  value differs. A key \<open>k\<close> whose value is not \<^verbatim>\<open>NaN\<close> and is the same after the
  dispatch gives no notification: the calls are those of the listeners object without the
  entry of \<open>k\<close>. On a service after any sequence of operations with such listeners,
  \<^verbatim>\<open>'mutedstate'\<close> holds a boolean, so there a dispatch that leaves \<^verbatim>\<open>'mutedstate'\<close> as it is, such as one
  that changes only \<^verbatim>\<open>'pausedstate'\<close>, makes no call for the \<^verbatim>\<open>'mutedstate'\<close>
  entry.
\<close>

theorem dispatch_notifies:
  assumes "distinct (Object_keys (this_listeners w))"
    and "quiet react w"
    and "dispatch_with react w a d = Returned w'"
  shows "called w' = called w @ notifications (\<lambda>x y. \<not> strict_equals x y)
                                  (this_listeners w) (the_state w) (the_state w')
       \<and> (\<forall>l v. Call l v \<in> set (notifications (\<lambda>x y. \<not> strict_equals x y)
                                  (this_listeners w) (the_state w) (the_state w'))
              \<longleftrightarrow> (\<exists>key handlers. (key, handlers) \<in> set (this_listeners w)
                     \<and> l \<in> set handlers
                     \<and> \<not> strict_equals (get_prop (the_state w) key)
                                         (get_prop (the_state w') key)
                     \<and> v = get_prop (the_state w') key))
       \<and> (no_NaN_subscribed w \<longrightarrow>
            called w' = called w @ notifications (\<lambda>x y. x \<noteq> y)
                                     (this_listeners w) (the_state w) (the_state w'))
       \<and> (get_prop (the_state w) k \<noteq> JNumber NaN
          \<and> get_prop (the_state w') k = get_prop (the_state w) k \<longrightarrow>
            called w' = called w @ notifications (\<lambda>x y. \<not> strict_equals x y)
                                     (filter (\<lambda>(key, handlers). key \<noteq> k) (this_listeners w))
                                     (the_state w) (the_state w'))
       \<and> (w = run (constructor h0 em) cmds
          \<and> get_prop (the_state w') MUTED_STATE = get_prop (the_state w) MUTED_STATE \<longrightarrow>
            called w' = called w @ notifications (\<lambda>x y. \<not> strict_equals x y)
                                     (filter (\<lambda>(key, handlers). key \<noteq> MUTED_STATE)
                                        (this_listeners w))
                                     (the_state w) (the_state w'))"
proof -
  from assms(2,3) have "dispatch w a d = Inr w'"
    by (simp add: dispatch_with_quiet split: sum.splits)
  from notifies_at_once [OF assms(1) this] show ?thesis .
qed

theorem dispatch_notifies_witness:
  "distinct (Object_keys (this_listeners subscribed_store))
   \<and> quiet at_once subscribed_store
   \<and> no_NaN_subscribed subscribed_store
   \<and> (\<exists>w'. dispatch_with at_once subscribed_store (Action_value TOGGLE_PAUSED)
              (JBoolean True) = Returned w'
        \<and> called w' = called subscribed_store @ notifications (\<lambda>x y. x \<noteq> y)
             (this_listeners subscribed_store) (the_state subscribed_store) (the_state w')
        \<and> called w' = [Call 2 (JBoolean False), Call 2 (JBoolean True)]
        \<and> this_listeners w' = [(MUTED_STATE, [1, 3]), (PAUSED_STATE, [2])])"
proof -
  note d = dispatch_with_Returned [OF quiet_at_once subscribed_store_paused, THEN conjunct1]
  note T = dispatch_notifies [OF subscribed_store_distinct quiet_at_once d]
  note n = T [THEN conjunct2, THEN conjunct2, THEN conjunct1, THEN mp,
              OF no_NaN_subscribed_store]
  have "\<exists>w'. dispatch_with at_once subscribed_store (Action_value TOGGLE_PAUSED)
              (JBoolean True) = Returned w'
        \<and> called w' = called subscribed_store @ notifications (\<lambda>x y. x \<noteq> y)
             (this_listeners subscribed_store) (the_state subscribed_store) (the_state w')
        \<and> called w' = [Call 2 (JBoolean False), Call 2 (JBoolean True)]
        \<and> this_listeners w' = [(MUTED_STATE, [1, 3]), (PAUSED_STATE, [2])]"
    by (rule exI, rule conjI [OF d conjI [OF n]]) simp
  with subscribed_store_distinct no_NaN_subscribed_store quiet_at_once [of subscribed_store]
  show ?thesis by blast
qed

text \<open>
  The condition on the listeners is needed. On a new service whose listener of
  \<^verbatim>\<open>'pausedstate'\<close>, subscribed first, unmutes, \<^verbatim>\<open>dispatch(TOGGLE_PAUSED, true)\<close>
  calls the listener of \<^verbatim>\<open>'mutedstate'\<close> twice: once in the dispatch that the first
  listener makes, and once more when the outer loop comes to \<^verbatim>\<open>'mutedstate'\<close> and
  reads the state again.
\<close>

lemma actions_TOGGLE_MUTED:
  "actions h s (Action_value TOGGLE_MUTED) d =
     Inr ((h @ [(deref h s)(MUTED_STATE \<mapsto> JBoolean (to_boolean d))], length h), [])"
  by (simp add: actions_enum assign_state_eq)

lemma unmuting_listener_notifies_twice:
  "dispatch_with (dispatching unmutes (Suc (Suc n))) pause_and_mute_watched
     (Action_value TOGGLE_PAUSED) (JBoolean True) =
   Returned
    \<lparr>heap = [getDefaultState,
             getDefaultState(PAUSED_STATE \<mapsto> JBoolean True),
             getDefaultState(PAUSED_STATE \<mapsto> JBoolean True, MUTED_STATE \<mapsto> JBoolean False)],
     this_listeners = [(PAUSED_STATE, [2]), (MUTED_STATE, [1])],
     this_state = 2, logged = [],
     called = [Call 2 (JBoolean True), Call 1 (JBoolean False), Call 1 (JBoolean False)]\<rparr>"
  unfolding pause_and_mute_watched_eq
  by (simp add: run_dispatch_with actions_TOGGLE_PAUSED actions_TOGGLE_MUTED unmutes_def)

text \<open>
  The claim as worded fails on the store whose page index is \<^verbatim>\<open>NaN\<close>:
  \<^verbatim>\<open>dispatch(TOGGLE_PAUSED, true)\<close> leaves the page index as it is, and calls the
  listener that is subscribed to the page index only.
\<close>

theorem dispatch_notifies_counterexample:
  "this_listeners store_NaN = [(CURRENT_PAGE_INDEX, [7])]
   \<and> dispatch store_NaN (Action_value TOGGLE_PAUSED) (JBoolean True)
       = Inr (run store_NaN [Dispatch (Action_value TOGGLE_PAUSED) (JBoolean True)])
   \<and> get_prop (the_state (run store_NaN
                  [Dispatch (Action_value TOGGLE_PAUSED) (JBoolean True)])) CURRENT_PAGE_INDEX
       = get_prop (the_state store_NaN) CURRENT_PAGE_INDEX
   \<and> called (run store_NaN [Dispatch (Action_value TOGGLE_PAUSED) (JBoolean True)])
       = called store_NaN @ [Call 7 (JNumber NaN)]"
  unfolding store_NaN_eq run_def
  by (simp add: dispatch_alt actions_TOGGLE_PAUSED the_state_def deref_def get_prop_def
        strict_equals_def Object_keys_def fired_def Observable_fire_def)

end
